theory Spec2Isabelle
  imports Complex_Main "HOL-Library.Sublist"
begin

section \<open>The file system seen by the staleness check\<close>

text \<open>
  \<^verbatim>\<open>datalama.py\<close> reads the file system through \<^verbatim>\<open>Path.exists\<close>, \<^verbatim>\<open>os.walk\<close> and
  \<^verbatim>\<open>os.path.getmtime\<close>. A path of the file system holds nothing, a regular file, a
  directory whose listing succeeds, or a directory whose listing fails (no read
  permission). Every node carries the modification time \<^verbatim>\<open>getmtime\<close> returns for it; the
  type of timestamps is any linear order (Python compares floats). Symbolic links and
  changes of the tree during a call are not modelled.
\<close>

type_synonym path = string

text \<open>The exceptions that can leave a call: Python's own \<^verbatim>\<open>ValueError\<close> and
  \<^verbatim>\<open>AttributeError\<close>, and the four kinds a collaborator may raise.\<close>

datatype error = ValueError | AttributeError | NotFoundError | AccessError | BackendError | InvalidArgument

datatype 't node = File 't | Dir 't "(string \<times> 't node) list" | Locked 't

type_synonym 't fs = "path \<Rightarrow> 't node option"

fun getmtime :: "'t node \<Rightarrow> 't" where
  "getmtime (File t) = t"
| "getmtime (Dir t es) = t"
| "getmtime (Locked t) = t"

fun is_dir :: "'t node \<Rightarrow> bool" where
  "is_dir (File t) = False"
| "is_dir (Dir t es) = True"
| "is_dir (Locked t) = True"

definition exists_path :: "'t fs \<Rightarrow> path \<Rightarrow> bool" where
  "exists_path fs p = (fs p \<noteq> None)"

definition joinpath :: "path \<Rightarrow> string \<Rightarrow> path" where
  "joinpath p n = p @ ''/'' @ n"

text \<open>
  One triple \<^verbatim>\<open>(root, dirs, files)\<close> of \<^verbatim>\<open>os.walk\<close>. The entry also carries what
  \<^verbatim>\<open>getmtime\<close> returns for \<^verbatim>\<open>root\<close> and for each \<^verbatim>\<open>root / file\<close>, the only two
  places where the source reads a timestamp.
\<close>

record 't walk_entry =
  root_path :: path
  root_mtime :: 't
  dirs :: "string list"
  files :: "(string \<times> 't) list"

text \<open>
  \<^verbatim>\<open>os.walk(top)\<close> with its defaults (top-down, \<^verbatim>\<open>onerror=None\<close>): a directory is
  yielded after its listing succeeded, then its subdirectories are walked in listing
  order. A listing that fails (the path is missing, is a regular file or cannot be read)
  is skipped without an error, so such a path yields nothing.
\<close>

fun walk :: "path \<Rightarrow> 't node \<Rightarrow> 't walk_entry list"
  and walk_subdirs :: "path \<Rightarrow> (string \<times> 't node) list \<Rightarrow> 't walk_entry list" where
  "walk dirpath (Dir t es) =
     \<lparr>root_path = dirpath, root_mtime = t,
      dirs = map fst (filter (\<lambda>(n, c). is_dir c) es),
      files = map (\<lambda>(n, c). (n, getmtime c)) (filter (\<lambda>(n, c). \<not> is_dir c) es)\<rparr>
     # walk_subdirs dirpath es"
| "walk dirpath (File t) = []"
| "walk dirpath (Locked t) = []"
| "walk_subdirs dirpath [] = []"
| "walk_subdirs dirpath ((name, c) # es) = walk (joinpath dirpath name) c @ walk_subdirs dirpath es"

definition os_walk :: "'t fs \<Rightarrow> path \<Rightarrow> 't walk_entry list" where
  "os_walk fs p = (case fs p of None \<Rightarrow> [] | Some n \<Rightarrow> walk p n)"

text \<open>Python's \<^verbatim>\<open>max\<close> over an iterable: \<^verbatim>\<open>ValueError\<close> when it is empty.\<close>

fun py_max :: "'a::linorder list \<Rightarrow> error + 'a" where
  "py_max [] = Inl ValueError"
| "py_max (x # xs) = Inr (fold max xs x)"

section \<open>The world outside the object\<close>

text \<open>
  What a call leaves behind besides its result: the monotonic clock read by
  \<^verbatim>\<open>time.perf_counter\<close> (in nanosecond ticks; a collaborator's call advances it by the
  ticks the call took), the sequence of log lines and collaborator calls, and the heap
  of the Python list and tuple objects that hold durations.
\<close>

datatype event =
    Enter_needs_reindexing path path
  | Log_reindexing_required path
  | Log_creating path
  | Log_persisted path
  | Log_loading path
  | Log_completed rat
  | Log_processing string
  | Log_query_completed rat
  | Call_configure string rat
  | Call_load_data path
  | Call_from_documents
  | Call_persist path
  | Call_load_index path
  | Call_as_query_engine nat
  | Call_query string

datatype pyobj = PyList "rat list" | PyTuple "rat list"

record world =
  clock :: nat
  trace :: "event list"
  heap :: "pyobj list"

definition perf_counter :: "world \<Rightarrow> rat" where
  "perf_counter w = of_nat (clock w) / 1000000000"

definition tick :: "nat \<Rightarrow> world \<Rightarrow> world" where
  "tick c w = w\<lparr>clock := clock w + c\<rparr>"

definition emit :: "event \<Rightarrow> world \<Rightarrow> world" where
  "emit e w = w\<lparr>trace := trace w @ [e]\<rparr>"

definition alloc :: "pyobj \<Rightarrow> world \<Rightarrow> nat \<times> world" where
  "alloc ob w = (length (heap w), w\<lparr>heap := heap w @ [ob]\<rparr>)"

definition deref :: "world \<Rightarrow> nat \<Rightarrow> pyobj option" where
  "deref w r = (if r < length (heap w) then Some (heap w ! r) else None)"

text \<open>\<^verbatim>\<open>list.append\<close>: in place, on a list object only (a tuple has no such method).\<close>

definition list_append :: "nat \<Rightarrow> rat \<Rightarrow> world \<Rightarrow> error + world" where
  "list_append r v w =
     (case deref w r of
        Some (PyList xs) \<Rightarrow> Inr (w\<lparr>heap := (heap w)[r := PyList (xs @ [v])]\<rparr>)
      | _ \<Rightarrow> Inl AttributeError)"

text \<open>\<^verbatim>\<open>tuple(xs)\<close>: a new tuple object holding the elements of the list at that moment.\<close>

definition tuple_of :: "nat \<Rightarrow> world \<Rightarrow> (error + nat) \<times> world" where
  "tuple_of r w =
     (case deref w r of
        Some (PyList xs) \<Rightarrow> (case alloc (PyTuple xs) w of (t, w') \<Rightarrow> (Inr t, w'))
      | Some (PyTuple xs) \<Rightarrow> (case alloc (PyTuple xs) w of (t, w') \<Rightarrow> (Inr t, w'))
      | None \<Rightarrow> (Inl ValueError, w))"

text \<open>
  \<^verbatim>\<open>round(x, ndigits)\<close> on a float rounds to the nearest multiple of \<open>10\<^sup>-\<^sup>n\<close>, a tie
  going to the even one. Durations are exact rationals here: the binary representation
  of a float is not modelled.
\<close>

definition round_half_even :: "rat \<Rightarrow> int" where
  "round_half_even x =
     (let f = \<lfloor>x\<rfloor>; d = x - of_int f
      in if d < 1 / 2 then f else if 1 / 2 < d then f + 1 else if even f then f else f + 1)"

definition py_round :: "rat \<Rightarrow> nat \<Rightarrow> rat" where
  "py_round x ndigits = of_int (round_half_even (x * 10 ^ ndigits)) / 10 ^ ndigits"

section \<open>The staleness check\<close>

text \<open>The inner loop of \<^verbatim>\<open>_needs_reindexing\<close> (lines 105-109): the path of the first
  file of one directory that is newer than the persistent time.\<close>

fun files_loop :: "'t::linorder \<Rightarrow> path \<Rightarrow> (string \<times> 't) list \<Rightarrow> path option" where
  "files_loop persistent_time rt [] = None"
| "files_loop persistent_time rt ((file, m) # fls) =
     (if m > persistent_time then Some (joinpath rt file)
      else files_loop persistent_time rt fls)"

text \<open>The outer loop (line 104), over the triples of the walk.\<close>

fun walk_loop :: "'t::linorder \<Rightarrow> 't walk_entry list \<Rightarrow> path option" where
  "walk_loop persistent_time [] = None"
| "walk_loop persistent_time (e # es) =
     (case files_loop persistent_time (root_path e) (files e) of
        Some file_path \<Rightarrow> Some file_path
      | None \<Rightarrow> walk_loop persistent_time es)"

definition needs_reindexing ::
  "('t::linorder) fs \<Rightarrow> path \<Rightarrow> path \<Rightarrow> world \<Rightarrow> (error + bool) \<times> world" where
  "needs_reindexing fs persistent_dir data_dir w =
     (let w1 = emit (Enter_needs_reindexing persistent_dir data_dir) w
      in case py_max (map root_mtime (os_walk fs persistent_dir)) of
           Inl e \<Rightarrow> (Inl e, w1)
         | Inr persistent_time \<Rightarrow>
             (case walk_loop persistent_time (os_walk fs data_dir) of
                Some file_path \<Rightarrow> (Inr True, emit (Log_reindexing_required file_path) w1)
              | None \<Rightarrow> (Inr False, w1)))"

section \<open>The collaborators\<close>

text \<open>
  Document loading, index building, persistence and the query engine belong to external
  libraries. Each call takes some ticks of the clock and returns a value or raises; a
  query engine is an object whose answer to a question may depend on the questions it was
  asked before. Documents \<open>'d\<close> and indexes \<open>'i\<close> are opaque.
\<close>

codatatype engine = Engine (respond: "string \<Rightarrow> (error + string) \<times> nat \<times> engine")

record ('d, 'i) backend =
  configure :: "string \<Rightarrow> rat \<Rightarrow> (error + unit) \<times> nat"
  load_data :: "path \<Rightarrow> (error + 'd) \<times> nat"
  from_documents :: "'d \<Rightarrow> (error + 'i) \<times> nat"
  persist :: "'i \<Rightarrow> path \<Rightarrow> (error + unit) \<times> nat"
  load_index_from_storage :: "path \<Rightarrow> (error + 'i) \<times> nat"
  as_query_engine :: "'i \<Rightarrow> nat \<Rightarrow> error + engine"

section \<open>The class \<^verbatim>\<open>DataLama\<close>\<close>

text \<open>The attributes of an instance; \<^verbatim>\<open>_query_durations\<close> is a reference to a list
  object of the heap.\<close>

record session =
  load_duration :: rat
  query_engine :: engine
  query_durations :: nat

text \<open>Lines 41-47: the branch that creates and persists a new index.\<close>

definition create_index ::
  "('d, 'i) backend \<Rightarrow> path \<Rightarrow> path \<Rightarrow> world \<Rightarrow> (error + 'i) \<times> world" where
  "create_index be persistent_dir path_to_data w =
     (let w1 = emit (Call_load_data path_to_data) (emit (Log_creating path_to_data) w)
      in case load_data be path_to_data of
           (Inl e, c) \<Rightarrow> (Inl e, tick c w1)
         | (Inr documents, c) \<Rightarrow>
             (let w2 = emit Call_from_documents (tick c w1)
              in case from_documents be documents of
                   (Inl e, c') \<Rightarrow> (Inl e, tick c' w2)
                 | (Inr index, c') \<Rightarrow>
                     (let w3 = emit (Call_persist persistent_dir) (tick c' w2)
                      in case persist be index persistent_dir of
                           (Inl e, c'') \<Rightarrow> (Inl e, tick c'' w3)
                         | (Inr u, c'') \<Rightarrow>
                             (Inr index, emit (Log_persisted persistent_dir) (tick c'' w3)))))"

text \<open>Lines 49-51: the branch that loads the persisted index.\<close>

definition load_index ::
  "('d, 'i) backend \<Rightarrow> path \<Rightarrow> world \<Rightarrow> (error + 'i) \<times> world" where
  "load_index be persistent_dir w =
     (let w1 = emit (Call_load_index persistent_dir) (emit (Log_loading persistent_dir) w)
      in case load_index_from_storage be persistent_dir of
           (Inl e, c) \<Rightarrow> (Inl e, tick c w1)
         | (Inr index, c) \<Rightarrow> (Inr index, tick c w1))"

text \<open>Line 40 with its two branches. The \<^verbatim>\<open>or\<close> evaluates its right operand only when
  the left one is false.\<close>

definition create_or_load ::
  "('t::linorder) fs \<Rightarrow> ('d, 'i) backend \<Rightarrow> path \<Rightarrow> path \<Rightarrow> world \<Rightarrow> (error + 'i) \<times> world" where
  "create_or_load fs be persistent_dir path_to_data w =
     (if \<not> exists_path fs persistent_dir then create_index be persistent_dir path_to_data w
      else case needs_reindexing fs persistent_dir path_to_data w of
             (Inl e, w1) \<Rightarrow> (Inl e, w1)
           | (Inr True, w1) \<Rightarrow> create_index be persistent_dir path_to_data w1
           | (Inr False, w1) \<Rightarrow> load_index be persistent_dir w1)"

text \<open>\<^verbatim>\<open>DataLama.__init__\<close> (lines 16-61).\<close>

definition init ::
  "('t::linorder) fs \<Rightarrow> ('d, 'i) backend \<Rightarrow> path \<Rightarrow> path \<Rightarrow> string \<Rightarrow> rat \<Rightarrow> world
     \<Rightarrow> (error + session) \<times> world" where
  "init fs be persistent_dir path_to_data model_name request_timeout w =
     (let w0 = emit (Call_configure model_name request_timeout) w
      in case configure be model_name request_timeout of
           (Inl e, c) \<Rightarrow> (Inl e, tick c w0)
         | (Inr u, c) \<Rightarrow>
             (let w1 = tick c w0; start_time = perf_counter w1
              in case create_or_load fs be persistent_dir path_to_data w1 of
                   (Inl e, w2) \<Rightarrow> (Inl e, w2)
                 | (Inr index, w2) \<Rightarrow>
                     (let ld = perf_counter w2 - start_time;
                          w3 = emit (Call_as_query_engine 4) (emit (Log_completed ld) w2)
                      in case as_query_engine be index 4 of
                           Inl e \<Rightarrow> (Inl e, w3)
                         | Inr qe \<Rightarrow>
                             (case alloc (PyList []) w3 of
                                (r, w4) \<Rightarrow>
                                  (Inr \<lparr>load_duration = ld, query_engine = qe,
                                        query_durations = r\<rparr>, w4)))))"

text \<open>\<^verbatim>\<open>get_load_duration\<close> (lines 64-68).\<close>

definition get_load_duration :: "session \<Rightarrow> rat" where
  "get_load_duration self = load_duration self"

text \<open>\<^verbatim>\<open>get_query_durations\<close> (lines 70-74): the reference to a new tuple object.\<close>

definition get_query_durations :: "session \<Rightarrow> world \<Rightarrow> (error + nat) \<times> world" where
  "get_query_durations self w = tuple_of (query_durations self) w"

text \<open>\<^verbatim>\<open>query\<close> (lines 76-89). The engine object lives on with whatever state the call
  left it in, also when the call raised.\<close>

definition query :: "session \<Rightarrow> string \<Rightarrow> world \<Rightarrow> (error + string) \<times> session \<times> world" where
  "query self msg w =
     (let start_time = perf_counter w;
          w1 = emit (Call_query msg) (emit (Log_processing msg) w)
      in case respond (query_engine self) msg of
           (Inl e, c, qe) \<Rightarrow> (Inl e, self\<lparr>query_engine := qe\<rparr>, tick c w1)
         | (Inr response, c, qe) \<Rightarrow>
             (let w2 = tick c w1;
                  query_duration = py_round (perf_counter w2 - start_time) 1
              in case list_append (query_durations self) query_duration w2 of
                   Inl e \<Rightarrow> (Inl e, self\<lparr>query_engine := qe\<rparr>, w2)
                 | Inr w3 \<Rightarrow>
                     (Inr response, self\<lparr>query_engine := qe\<rparr>,
                      emit (Log_query_completed query_duration) w3)))"

section \<open>A session's lifetime\<close>

text \<open>The content of the list object behind \<^verbatim>\<open>_query_durations\<close>: the query-duration log.\<close>

definition query_log :: "session \<Rightarrow> world \<Rightarrow> rat list option" where
  "query_log self w =
     (case deref w (query_durations self) of Some (PyList xs) \<Rightarrow> Some xs | _ \<Rightarrow> None)"

text \<open>
  The public operations of an instance, and a caller that performs a sequence of them on
  one instance, going on after an operation raised.
\<close>

datatype call = Query string | Get_load_duration | Get_query_durations

datatype outcome = Answer string | Raised error | Duration rat | Snapshot nat

fun perform :: "call \<Rightarrow> session \<Rightarrow> world \<Rightarrow> outcome \<times> session \<times> world" where
  "perform (Query msg) self w =
     (case query self msg w of
        (Inl e, self', w') \<Rightarrow> (Raised e, self', w')
      | (Inr response, self', w') \<Rightarrow> (Answer response, self', w'))"
| "perform Get_load_duration self w = (Duration (get_load_duration self), self, w)"
| "perform Get_query_durations self w =
     (case get_query_durations self w of
        (Inl e, w') \<Rightarrow> (Raised e, self, w')
      | (Inr t, w') \<Rightarrow> (Snapshot t, self, w'))"

fun run :: "call list \<Rightarrow> session \<Rightarrow> world \<Rightarrow> outcome list \<times> session \<times> world" where
  "run [] self w = ([], self, w)"
| "run (c # cs) self w =
     (case perform c self w of
        (out, self', w') \<Rightarrow> (case run cs self' w' of (outs, self'', w'') \<Rightarrow> (out # outs, self'', w'')))"

fun is_answer :: "outcome \<Rightarrow> bool" where
  "is_answer (Answer a) = True"
| "is_answer out = False"

text \<open>What the log is to gain from a sequence of operations: for each question the engine
  answers, in call order, the seconds the engine took, rounded to one decimal place.\<close>

fun answered_durations :: "engine \<Rightarrow> call list \<Rightarrow> rat list" where
  "answered_durations qe [] = []"
| "answered_durations qe (Query msg # cs) =
     (case respond qe msg of
        (Inl e, c, qe') \<Rightarrow> answered_durations qe' cs
      | (Inr response, c, qe') \<Rightarrow> py_round (of_nat c / 1000000000) 1 # answered_durations qe' cs)"
| "answered_durations qe (c # cs) = answered_durations qe cs"

text \<open>The events of the trace that are calls of a collaborator, and the events a call added.\<close>

fun is_call :: "event \<Rightarrow> bool" where
  "is_call (Call_configure m t) = True"
| "is_call (Call_load_data p) = True"
| "is_call Call_from_documents = True"
| "is_call (Call_persist p) = True"
| "is_call (Call_load_index p) = True"
| "is_call (Call_as_query_engine k) = True"
| "is_call (Call_query q) = True"
| "is_call e = False"

definition collaborator_calls :: "event list \<Rightarrow> event list" where
  "collaborator_calls evs = filter is_call evs"

definition new_events :: "world \<Rightarrow> world \<Rightarrow> event list" where
  "new_events w w' = drop (length (trace w)) (trace w')"

section \<open>The specification's notions\<close>

text \<open>
  The modification times of the directories reachable under a directory: its own and,
  recursively, those of its subdirectories. A directory is reached when its listing
  succeeds; one whose listing fails is not, and neither is anything below it.
\<close>

fun reachable_dir_mtimes :: "'t node \<Rightarrow> 't set"
  and reachable_dir_mtimes_in :: "(string \<times> 't node) list \<Rightarrow> 't set" where
  "reachable_dir_mtimes (Dir t es) = insert t (reachable_dir_mtimes_in es)"
| "reachable_dir_mtimes (File t) = {}"
| "reachable_dir_mtimes (Locked t) = {}"
| "reachable_dir_mtimes_in [] = {}"
| "reachable_dir_mtimes_in ((name, c) # es) = reachable_dir_mtimes c \<union> reachable_dir_mtimes_in es"

text \<open>The regular files under a directory (recursively), each with its path and its
  modification time.\<close>

fun files_under :: "path \<Rightarrow> 't node \<Rightarrow> (path \<times> 't) set"
  and files_in :: "path \<Rightarrow> (string \<times> 't node) list \<Rightarrow> (path \<times> 't) set" where
  "files_under p (Dir t es) = files_in p es"
| "files_under p (File t) = {}"
| "files_under p (Locked t) = {}"
| "files_in p [] = {}"
| "files_in p ((name, c) # es) =
     (case c of File m \<Rightarrow> {(joinpath p name, m)} | _ \<Rightarrow> files_under (joinpath p name) c)
     \<union> files_in p es"

definition source_files :: "'t fs \<Rightarrow> path \<Rightarrow> (path \<times> 't) set" where
  "source_files fs p = (case fs p of None \<Rightarrow> {} | Some n \<Rightarrow> files_under p n)"

text \<open>The files of a walk in the order the two loops of \<^verbatim>\<open>_needs_reindexing\<close> visit them,
  and the regular files listed in one directory.\<close>

definition visited_files :: "'t walk_entry list \<Rightarrow> (path \<times> 't) list" where
  "visited_files entries =
     concat (map (\<lambda>e. map (\<lambda>(file, m). (joinpath (root_path e) file, m)) (files e)) entries)"

definition plain_files :: "path \<Rightarrow> (string \<times> 't node) list \<Rightarrow> (path \<times> 't) set" where
  "plain_files p es = {(joinpath p n, m) |n m. (n, File m) \<in> set es}"

text \<open>The condition of line 40, and the collaborator calls of the two branches in the order
  the source makes them.\<close>

definition rebuild_condition :: "('t::linorder) fs \<Rightarrow> path \<Rightarrow> path \<Rightarrow> world \<Rightarrow> bool" where
  "rebuild_condition fs persistent_dir path_to_data w =
     (\<not> exists_path fs persistent_dir
      \<or> fst (needs_reindexing fs persistent_dir path_to_data w) = Inr True)"

definition rebuild_calls :: "string \<Rightarrow> rat \<Rightarrow> path \<Rightarrow> path \<Rightarrow> event list" where
  "rebuild_calls model_name request_timeout persistent_dir path_to_data =
     [Call_configure model_name request_timeout, Call_load_data path_to_data,
      Call_from_documents, Call_persist persistent_dir, Call_as_query_engine 4]"

definition reload_calls :: "string \<Rightarrow> rat \<Rightarrow> path \<Rightarrow> event list" where
  "reload_calls model_name request_timeout persistent_dir =
     [Call_configure model_name request_timeout, Call_load_index persistent_dir,
      Call_as_query_engine 4]"

text \<open>Modelled from the spec: the error kinds of its section 7 (the taxonomy the source
  itself does not declare).\<close>

definition documented_error_kinds :: "error set" where
  "documented_error_kinds = {NotFoundError, AccessError, BackendError, InvalidArgument}"

section \<open>Example inputs\<close>

text \<open>Concrete file systems, collaborators, instances and worlds on which the theorems
  below are instantiated.\<close>

definition world0 :: world where "world0 = \<lparr>clock = 0, trace = [], heap = []\<rparr>"

definition fs0 :: "nat fs" where
  "fs0 = [''cache'' \<mapsto> Dir 10 [(''a'', File 40), (''sub'', Dir 12 [])],
          ''data'' \<mapsto> Dir 3 [(''x.txt'', File 11), (''d'', Dir 50 [(''y.txt'', File 13), (''z'', File 14)])]]"

primcorec const_engine :: "string \<Rightarrow> nat \<Rightarrow> engine" where
  "respond (const_engine a c) = (\<lambda>q. (Inr a, c, const_engine a c))"

primcorec failing_engine :: "error \<Rightarrow> nat \<Rightarrow> engine" where
  "respond (failing_engine e c) = (\<lambda>q. (Inl e, c, failing_engine e c))"

definition be0 :: "(unit, unit) backend" where
  "be0 = \<lparr>configure = (\<lambda>m t. (Inr (), 5)), load_data = (\<lambda>p. (Inr (), 500000000)),
     from_documents = (\<lambda>d. (Inr (), 2000000000)), persist = (\<lambda>i p. (Inr (), 500000000)),
     load_index_from_storage = (\<lambda>p. (Inr (), 250000000)),
     as_query_engine = (\<lambda>i k. Inr (const_engine ''Sauron'' 1250000000))\<rparr>"

definition session0 :: session where
  "session0 = \<lparr>load_duration = 2, query_engine = const_engine ''Sauron'' 1250000000,
                query_durations = 0\<rparr>"

definition session1 :: session where
  "session1 = \<lparr>load_duration = 2, query_engine = failing_engine BackendError 7,
                query_durations = 0\<rparr>"

definition world1 :: world where
  "world1 = \<lparr>clock = 5, trace = [], heap = [PyList [3 / 2]]\<rparr>"

definition session2 :: session where
  "session2 = \<lparr>load_duration = 3, query_engine = const_engine ''Sauron'' 1250000000,
                query_durations = 0\<rparr>"

definition world2 :: world where
  "world2 = \<lparr>clock = 3000000005,
     trace = [Call_configure ''llama3.1'' 120, Enter_needs_reindexing ''cache'' ''data'',
              Log_reindexing_required ''data/d/y.txt'', Log_creating ''data'',
              Call_load_data ''data'', Call_from_documents, Call_persist ''cache'',
              Log_persisted ''cache'', Log_completed 3, Call_as_query_engine 4],
     heap = [PyList []]\<rparr>"

definition calls2 :: "call list" where
  "calls2 = [Query ''Who owns the one ring?'', Get_query_durations, Get_load_duration,
             Query ''And the other rings?'']"

definition world3 :: world where
  "world3 = \<lparr>clock = 5500000005,
     trace = trace world2 @
       [Log_processing ''Who owns the one ring?'', Call_query ''Who owns the one ring?'',
        Log_query_completed (6 / 5),
        Log_processing ''And the other rings?'', Call_query ''And the other rings?'',
        Log_query_completed (6 / 5)],
     heap = [PyList [6 / 5, 6 / 5], PyTuple [6 / 5]]\<rparr>"

definition fs1 :: "nat fs" where
  "fs1 = [''cache'' \<mapsto> Dir 100 [(''docstore.json'', File 90)],
          ''cachefile'' \<mapsto> File 7,
          ''data'' \<mapsto> Dir 3 [(''x.txt'', File 11)],
          ''locked'' \<mapsto> Locked 200]"

definition session3 :: session where
  "session3 = \<lparr>load_duration = 1 / 4, query_engine = const_engine ''Sauron'' 1250000000,
                query_durations = 0\<rparr>"

definition world4 :: world where
  "world4 = \<lparr>clock = 250000005,
     trace = [Call_configure ''llama3.1'' 120, Enter_needs_reindexing ''cache'' ''data'',
              Log_loading ''cache'', Call_load_index ''cache'', Log_completed (1 / 4),
              Call_as_query_engine 4],
     heap = [PyList []]\<rparr>"

definition world5 :: world where
  "world5 = \<lparr>clock = 3000000005,
     trace = [Call_configure ''llama3.1'' 120, Log_creating ''data'',
              Call_load_data ''data'', Call_from_documents, Call_persist ''nocache'',
              Log_persisted ''nocache'', Log_completed 3, Call_as_query_engine 4],
     heap = [PyList []]\<rparr>"

section \<open>Auxiliary lemmas\<close>

lemma py_max_Max:
  assumes "xs \<noteq> []"
  shows "py_max xs = Inr (Max (set xs))"
proof (cases xs)
  case Nil
  with assms show ?thesis by simp
next
  case (Cons x ys)
  then show ?thesis using Max.set_eq_fold [of x ys] by simp
qed

lemma walk_root_mtimes:
  "set (map root_mtime (walk p (n :: 't node))) = reachable_dir_mtimes n"
  "set (map root_mtime (walk_subdirs p (es :: (string \<times> 't node) list))) = reachable_dir_mtimes_in es"
  by (induction p n and p es rule: walk_walk_subdirs.induct) auto

lemma files_loop_find:
  "files_loop T rt fls = map_option fst (find (\<lambda>(p, m). T < m) (map (\<lambda>(file, m). (joinpath rt file, m)) fls))"
  by (induction fls) auto

lemma visited_files_Cons:
  "visited_files (e # es) = map (\<lambda>(file, m). (joinpath (root_path e) file, m)) (files e) @ visited_files es"
  by (simp add: visited_files_def)

lemma visited_files_append:
  "visited_files (xs @ ys) = visited_files xs @ visited_files ys"
  by (simp add: visited_files_def)

lemma find_append: "find P (xs @ ys) = (case find P xs of None \<Rightarrow> find P ys | Some x \<Rightarrow> Some x)"
  by (induction xs) auto

lemma walk_loop_find:
  "walk_loop T entries = map_option fst (find (\<lambda>(p, m). T < m) (visited_files entries))"
proof (induction entries)
  case Nil
  show ?case by (simp add: visited_files_def)
next
  case (Cons e es)
  show ?case
    by (simp add: visited_files_Cons find_append files_loop_find Cons.IH split: option.splits)
qed

lemma plain_files_Nil: "plain_files p [] = {}"
  by (simp add: plain_files_def)

lemma plain_files_Cons:
  "plain_files p ((name, c) # es) =
     (case c of File m \<Rightarrow> {(joinpath p name, m)} | _ \<Rightarrow> {}) \<union> plain_files p es"
  by (cases c) (auto simp: plain_files_def)

lemma listed_files:
  "set (map (\<lambda>(file, m). (joinpath p file, m))
         (map (\<lambda>(n, c). (n, getmtime c)) (filter (\<lambda>(n, c). \<not> is_dir c) es)))
     = plain_files p es"
proof (induction es)
  case Nil
  show ?case by (simp add: plain_files_Nil)
next
  case (Cons a es)
  obtain n c where a: "a = (n, c)" by (cases a)
  show ?case using Cons.IH by (cases c) (simp_all add: a plain_files_Cons del: set_map map_map)
qed

lemma walk_visited_files:
  "set (visited_files (walk p (n :: 't node))) = files_under p n"
  "plain_files p es \<union> set (visited_files (walk_subdirs p (es :: (string \<times> 't node) list)))
     = files_in p es"
proof (induction p n and p es rule: walk_walk_subdirs.induct)
  case (1 dirpath t es)
  have "set (visited_files (walk dirpath (Dir t es))) =
      set (map (\<lambda>(file, m). (joinpath dirpath file, m))
            (map (\<lambda>(n, c). (n, getmtime c)) (filter (\<lambda>(n, c). \<not> is_dir c) es)))
      \<union> set (visited_files (walk_subdirs dirpath es))"
    by (simp add: visited_files_Cons del: map_map set_map)
  then show ?case unfolding listed_files using 1 by simp
next
  case (2 dirpath t)
  show ?case by (simp add: visited_files_def)
next
  case (3 dirpath t)
  show ?case by (simp add: visited_files_def)
next
  case (4 dirpath)
  show ?case by (simp add: visited_files_def plain_files_Nil)
next
  case (5 dirpath name c es)
  have "plain_files dirpath ((name, c) # es)
        \<union> set (visited_files (walk_subdirs dirpath ((name, c) # es)))
      = (case c of File m \<Rightarrow> {(joinpath dirpath name, m)} | _ \<Rightarrow> {})
        \<union> files_under (joinpath dirpath name) c
        \<union> (plain_files dirpath es \<union> set (visited_files (walk_subdirs dirpath es)))"
    using "5.IH"(1) by (auto simp: plain_files_Cons visited_files_append)
  also have "\<dots> = files_in dirpath ((name, c) # es)"
    unfolding "5.IH"(2) by (cases c) auto
  finally show ?case .
qed

lemma finite_reachable_dir_mtimes:
  "finite (reachable_dir_mtimes (n :: 't node))"
  "finite (reachable_dir_mtimes_in (es :: (string \<times> 't node) list))"
  by (induction n and es rule: reachable_dir_mtimes_reachable_dir_mtimes_in.induct) auto

lemma persistent_time_Dir:
  fixes fs :: "('t::linorder) fs"
  assumes "fs persistent_dir = Some (Dir t es)"
  shows "py_max (map root_mtime (os_walk fs persistent_dir)) = Inr (Max (reachable_dir_mtimes (Dir t es)))"
proof -
  have ne: "map root_mtime (os_walk fs persistent_dir) \<noteq> []"
    using assms by (simp add: os_walk_def)
  have "set (map root_mtime (os_walk fs persistent_dir)) = reachable_dir_mtimes (Dir t es)"
    using assms walk_root_mtimes(1) [of persistent_dir "Dir t es"] by (simp add: os_walk_def)
  with py_max_Max [OF ne] show ?thesis by simp
qed

lemma visited_source_files:
  "set (visited_files (os_walk fs data_dir)) = source_files fs data_dir"
proof (cases "fs data_dir")
  case None
  then show ?thesis by (simp add: os_walk_def source_files_def visited_files_def)
next
  case (Some n)
  then show ?thesis by (simp add: os_walk_def source_files_def walk_visited_files(1))
qed

lemma find_None_iff_Bex: "(find P xs \<noteq> None) = (\<exists>x\<in>set xs. P x)"
  by (auto simp: find_None_iff)

lemma round_half_even_bounds:
  "\<bar>of_int (round_half_even x) - x\<bar> \<le> 1 / 2"
  unfolding round_half_even_def Let_def
  by (auto simp: abs_if; linarith)

lemma round_half_even_nonneg: "0 \<le> x \<Longrightarrow> 0 \<le> round_half_even x"
  unfolding round_half_even_def Let_def by auto

lemma py_round_1_decimal: "\<exists>k::int. py_round x 1 = of_int k / 10"
  by (auto simp: py_round_def)

lemma py_round_1_close: "\<bar>py_round x 1 - x\<bar> \<le> 1 / 20"
proof -
  have "\<bar>of_int (round_half_even (x * 10)) - x * 10\<bar> \<le> 1 / 2"
    by (rule round_half_even_bounds)
  then show ?thesis by (simp add: py_round_def abs_if field_simps split: if_splits)
qed

lemma py_round_nonneg: "0 \<le> x \<Longrightarrow> 0 \<le> py_round x n"
  by (simp add: py_round_def round_half_even_nonneg)

lemma deref_emit: "deref (emit e w) r = deref w r"
  by (simp add: deref_def emit_def)

lemma deref_tick: "deref (tick c w) r = deref w r"
  by (simp add: deref_def tick_def)

lemma list_append_list:
  assumes "deref w r = Some (PyList xs)"
  shows "list_append r v w = Inr (w\<lparr>heap := (heap w)[r := PyList (xs @ [v])]\<rparr>)"
  using assms by (simp add: list_append_def)

lemma list_append_Inr:
  assumes "list_append r v w = Inr w'"
  shows "\<exists>xs. deref w r = Some (PyList xs) \<and> w' = w\<lparr>heap := (heap w)[r := PyList (xs @ [v])]\<rparr>"
  using assms by (auto simp: list_append_def split: option.splits pyobj.splits)

lemma list_append_keeps_tuple:
  assumes "deref w t = Some (PyTuple xs)" and "list_append r v w = Inr w'"
  shows "deref w' t = Some (PyTuple xs)"
proof -
  from list_append_Inr [OF assms(2)] obtain ys where
    r: "deref w r = Some (PyList ys)" and w': "w' = w\<lparr>heap := (heap w)[r := PyList (ys @ [v])]\<rparr>"
    by blast
  from r assms(1) have "t \<noteq> r" by auto
  with assms(1) show ?thesis by (auto simp: w' deref_def split: if_splits)
qed

lemma query_answer:
  assumes "query_log self w = Some lg"
    and "respond (query_engine self) msg = (Inr a, c, qe)"
  shows "query self msg w =
     (Inr a, self\<lparr>query_engine := qe\<rparr>,
      \<lparr>clock = clock w + c,
       trace = trace w @ [Log_processing msg, Call_query msg,
                          Log_query_completed (py_round (of_nat c / 1000000000) 1)],
       heap = (heap w)[query_durations self := PyList (lg @ [py_round (of_nat c / 1000000000) 1])]\<rparr>)"
proof -
  let ?w1 = "emit (Call_query msg) (emit (Log_processing msg) w)"
  have el: "perf_counter (tick c ?w1) - perf_counter w = of_nat c / 1000000000"
    by (simp add: perf_counter_def tick_def emit_def add_divide_distrib)
  from assms(1) have "deref w (query_durations self) = Some (PyList lg)"
    by (auto simp: query_log_def split: option.splits pyobj.splits)
  then have "deref (tick c ?w1) (query_durations self) = Some (PyList lg)"
    by (simp add: deref_tick deref_emit)
  from list_append_list [OF this]
  have la: "list_append (query_durations self) (py_round (of_nat c / 1000000000) 1) (tick c ?w1)
      = Inr ((tick c ?w1)\<lparr>heap := (heap (tick c ?w1))
          [query_durations self := PyList (lg @ [py_round (of_nat c / 1000000000) 1])]\<rparr>)" .
  have "query self msg w = (Inr a, self\<lparr>query_engine := qe\<rparr>,
      emit (Log_query_completed (py_round (of_nat c / 1000000000) 1))
        ((tick c ?w1)\<lparr>heap := (heap (tick c ?w1))
          [query_durations self := PyList (lg @ [py_round (of_nat c / 1000000000) 1])]\<rparr>))"
    by (simp only: query_def Let_def assms(2) el la prod.case sum.case)
  then show ?thesis by (simp add: tick_def emit_def)
qed

lemma query_raise:
  assumes "respond (query_engine self) msg = (Inl e, c, qe)"
  shows "query self msg w =
     (Inl e, self\<lparr>query_engine := qe\<rparr>,
      \<lparr>clock = clock w + c, trace = trace w @ [Log_processing msg, Call_query msg],
       heap = heap w\<rparr>)"
  unfolding query_def Let_def assms by (simp add: tick_def emit_def)

lemma query_keeps_tuple:
  assumes "deref w t = Some (PyTuple xs)"
  shows "deref (snd (snd (query self msg w))) t = Some (PyTuple xs)"
proof -
  let ?w1 = "emit (Call_query msg) (emit (Log_processing msg) w)"
  obtain r c qe where rs: "respond (query_engine self) msg = (r, c, qe)"
    by (cases "respond (query_engine self) msg")
  have base: "deref (tick c ?w1) t = Some (PyTuple xs)"
    using assms by (simp add: deref_tick deref_emit)
  show ?thesis
  proof (cases r)
    case (Inl e)
    with base show ?thesis by (simp add: query_def Let_def rs)
  next
    case (Inr a)
    show ?thesis
    proof (cases "list_append (query_durations self)
        (py_round (perf_counter (tick c ?w1) - perf_counter w) 1) (tick c ?w1)")
      case (Inl e)
      with base Inr show ?thesis by (simp add: query_def Let_def rs)
    next
      case (Inr w3)
      from list_append_keeps_tuple [OF base Inr] \<open>r = Inr a\<close> Inr show ?thesis
        by (simp add: query_def Let_def rs deref_emit)
    qed
  qed
qed

lemma query_fields:
  "load_duration (fst (snd (query self msg w))) = load_duration self"
  "query_durations (fst (snd (query self msg w))) = query_durations self"
  by (auto simp: query_def Let_def split: prod.splits sum.splits)

lemma query_log_deref:
  "(query_log self w = Some lg) = (deref w (query_durations self) = Some (PyList lg))"
  by (auto simp: query_log_def split: option.splits pyobj.splits)

lemma perform_query_answer:
  assumes "query_log self w = Some lg"
    and "respond (query_engine self) msg = (Inr a, c, qe)"
    and "perform (Query msg) self w = (out, self', w')"
  shows "out = Answer a \<and> self' = self\<lparr>query_engine := qe\<rparr>
       \<and> query_log self' w' = Some (lg @ [py_round (of_nat c / 1000000000) 1])"
proof -
  from assms(1) have "query_durations self < length (heap w)"
    by (auto simp: query_log_deref deref_def split: if_splits)
  with assms(3) show ?thesis
    unfolding perform.simps query_answer [OF assms(1,2)]
    by (auto simp: query_log_deref deref_def)
qed

lemma perform_query_raise:
  assumes "query_log self w = Some lg"
    and "respond (query_engine self) msg = (Inl e, c, qe)"
    and "perform (Query msg) self w = (out, self', w')"
  shows "out = Raised e \<and> self' = self\<lparr>query_engine := qe\<rparr> \<and> query_log self' w' = Some lg"
  using assms(1,3) unfolding perform.simps query_raise [OF assms(2)]
  by (auto simp: query_log_deref deref_def split: if_splits)

lemma get_query_durations_snapshot:
  assumes "query_log self w = Some lg"
  shows "get_query_durations self w = (Inr (length (heap w)), w\<lparr>heap := heap w @ [PyTuple lg]\<rparr>)"
  using assms by (simp add: query_log_deref get_query_durations_def tuple_of_def alloc_def)

lemma perform_snapshot:
  assumes "query_log self w = Some lg"
    and "perform Get_query_durations self w = (out, self', w')"
  shows "out = Snapshot (length (heap w)) \<and> self' = self \<and> query_log self' w' = Some lg"
proof -
  from assms(1) have "query_durations self < length (heap w)"
    by (auto simp: query_log_deref deref_def split: if_splits)
  with assms show ?thesis
    unfolding perform.simps get_query_durations_snapshot [OF assms(1)]
    by (auto simp: query_log_deref deref_def nth_append)
qed

lemma run_invariant:
  assumes "query_log self w = Some lg" and "run calls self w = (outs, self', w')"
  shows "query_log self' w' = Some (lg @ answered_durations (query_engine self) calls)
       \<and> load_duration self' = load_duration self
       \<and> query_durations self' = query_durations self
       \<and> length (filter is_answer outs) = length (answered_durations (query_engine self) calls)
       \<and> (\<forall>d. Duration d \<in> set outs \<longrightarrow> d = load_duration self)"
  using assms
proof (induction calls arbitrary: self w lg outs self' w')
  case Nil
  then show ?case by simp
next
  case (Cons c cs)
  obtain out s1 w1 where p: "perform c self w = (out, s1, w1)"
    by (cases "perform c self w")
  obtain outs1 s2 w2 where r: "run cs s1 w1 = (outs1, s2, w2)"
    by (cases "run cs s1 w1")
  from Cons.prems(2) p r have eqs: "outs = out # outs1" "self' = s2" "w' = w2"
    by simp_all
  show ?case
  proof (cases c)
    case (Query msg)
    obtain res k qe where rs: "respond (query_engine self) msg = (res, k, qe)"
      by (cases "respond (query_engine self) msg")
    show ?thesis
    proof (cases res)
      case (Inl e)
      from perform_query_raise [OF Cons.prems(1) rs [unfolded Inl] p [unfolded Query]]
      have o: "out = Raised e" and s: "s1 = self\<lparr>query_engine := qe\<rparr>" and l: "query_log s1 w1 = Some lg"
        by blast+
      from Cons.IH [OF l r] show ?thesis
        by (simp add: eqs o s Query rs Inl)
    next
      case (Inr a)
      from perform_query_answer [OF Cons.prems(1) rs [unfolded Inr] p [unfolded Query]]
      have o: "out = Answer a" and s: "s1 = self\<lparr>query_engine := qe\<rparr>"
        and l: "query_log s1 w1 = Some (lg @ [py_round (of_nat k / 1000000000) 1])"
        by blast+
      from Cons.IH [OF l r] show ?thesis
        by (simp add: eqs o s Query rs Inr)
    qed
  next
    case Get_load_duration
    with p have o: "out = Duration (load_duration self)" and s: "s1 = self" and w: "w1 = w"
      by (auto simp: get_load_duration_def)
    from Cons.IH [OF Cons.prems(1) r [unfolded s w]] show ?thesis
      by (auto simp: eqs o Get_load_duration)
  next
    case Get_query_durations
    from perform_snapshot [OF Cons.prems(1) p [unfolded Get_query_durations]]
    have o: "out = Snapshot (length (heap w))" and s: "s1 = self" and l: "query_log s1 w1 = Some lg"
      by blast+
    from Cons.IH [OF l r] show ?thesis
      by (simp add: eqs o s Get_query_durations)
  qed
qed

lemma run_append:
  "run (cs1 @ cs2) self w =
     (case run cs1 self w of
        (outs1, s1, w1) \<Rightarrow> (case run cs2 s1 w1 of (outs2, s2, w2) \<Rightarrow> (outs1 @ outs2, s2, w2)))"
  by (induction cs1 arbitrary: self w) (auto split: prod.splits)

lemma answered_durations_nonneg: "\<forall>d\<in>set (answered_durations qe calls). 0 \<le> d"
proof (induction calls arbitrary: qe)
  case Nil
  show ?case by simp
next
  case (Cons c cs)
  show ?case
  proof (cases c)
    case (Query msg)
    obtain res k qe' where rs: "respond qe msg = (res, k, qe')"
      by (cases "respond qe msg")
    have "(0::rat) \<le> py_round (of_nat k / 1000000000) 1"
      by (rule py_round_nonneg) simp
    with Cons.IH [of qe'] show ?thesis
      by (cases res) (simp_all add: Query rs)
  next
    case Get_load_duration
    with Cons.IH [of qe] show ?thesis by simp
  next
    case Get_query_durations
    with Cons.IH [of qe] show ?thesis by simp
  qed
qed

lemma perform_keeps_tuple:
  assumes "deref w t = Some (PyTuple xs)"
  shows "deref (snd (snd (perform c self w))) t = Some (PyTuple xs)"
proof (cases c)
  case (Query msg)
  from query_keeps_tuple [OF assms, of self msg] show ?thesis
    by (auto simp: Query split: prod.splits sum.splits)
next
  case Get_load_duration
  with assms show ?thesis by simp
next
  case Get_query_durations
  from assms have "t < length (heap w)" by (auto simp: deref_def split: if_splits)
  with assms show ?thesis
    by (auto simp: Get_query_durations get_query_durations_def tuple_of_def alloc_def deref_def nth_append
        split: prod.splits sum.splits option.splits pyobj.splits)
qed

lemma run_keeps_tuple:
  assumes "deref w t = Some (PyTuple xs)"
  shows "deref (snd (snd (run calls self w))) t = Some (PyTuple xs)"
  using assms
proof (induction calls arbitrary: self w)
  case Nil
  then show ?case by simp
next
  case (Cons c cs)
  obtain out s1 w1 where p: "perform c self w = (out, s1, w1)"
    by (cases "perform c self w")
  from perform_keeps_tuple [OF Cons.prems, of c self] p
  have "deref w1 t = Some (PyTuple xs)" by simp
  from Cons.IH [OF this, of s1] show ?case
    by (cases "run cs s1 w1") (simp add: p)
qed

lemma needs_reindexing_cases:
  "(\<exists>e. needs_reindexing fs pd dd w = (Inl e, emit (Enter_needs_reindexing pd dd) w))
   \<or> (\<exists>p. needs_reindexing fs pd dd w =
          (Inr True, emit (Log_reindexing_required p) (emit (Enter_needs_reindexing pd dd) w)))
   \<or> needs_reindexing fs pd dd w = (Inr False, emit (Enter_needs_reindexing pd dd) w)"
  by (auto simp: needs_reindexing_def Let_def split: sum.splits option.splits)

lemma needs_reindexing_result_world:
  "fst (needs_reindexing fs pd dd w) = fst (needs_reindexing fs pd dd w')"
  by (auto simp: needs_reindexing_def Let_def split: sum.splits option.splits)

lemma create_index_Inr:
  assumes "create_index be pd dd w = (Inr index, w')"
  shows "trace w' = trace w @ [Log_creating dd, Call_load_data dd, Call_from_documents,
                               Call_persist pd, Log_persisted pd]"
  using assms
  by (auto simp: create_index_def Let_def emit_def tick_def split: prod.splits sum.splits)

lemma create_index_trace:
  "\<exists>evs. trace (snd (create_index be pd dd w)) = trace w @ evs
         \<and> Enter_needs_reindexing pd dd \<notin> set evs"
  by (auto simp: create_index_def Let_def emit_def tick_def split: prod.splits sum.splits)

lemma load_index_Inr:
  assumes "load_index be pd w = (Inr index, w')"
  shows "trace w' = trace w @ [Log_loading pd, Call_load_index pd]"
  using assms
  by (auto simp: load_index_def Let_def emit_def tick_def split: prod.splits sum.splits)

lemma create_or_load_Inr:
  assumes "create_or_load fs be pd dd w = (Inr index, w')"
  shows "(\<not> exists_path fs pd \<and>
            trace w' = trace w @ [Log_creating dd, Call_load_data dd, Call_from_documents,
                                  Call_persist pd, Log_persisted pd])
       \<or> (exists_path fs pd \<and> fst (needs_reindexing fs pd dd w) = Inr True \<and>
            (\<exists>p. trace w' = trace w @ [Enter_needs_reindexing pd dd, Log_reindexing_required p,
                                  Log_creating dd, Call_load_data dd, Call_from_documents,
                                  Call_persist pd, Log_persisted pd]))
       \<or> (exists_path fs pd \<and> fst (needs_reindexing fs pd dd w) = Inr False \<and>
            trace w' = trace w @ [Enter_needs_reindexing pd dd, Log_loading pd, Call_load_index pd])"
proof (cases "exists_path fs pd")
  case False
  with assms have "create_index be pd dd w = (Inr index, w')"
    by (simp add: create_or_load_def)
  from create_index_Inr [OF this] False show ?thesis by simp
next
  case True
  from needs_reindexing_cases [of fs pd dd w] show ?thesis
  proof (elim disjE exE)
    fix e assume "needs_reindexing fs pd dd w = (Inl e, emit (Enter_needs_reindexing pd dd) w)"
    with assms True show ?thesis by (simp add: create_or_load_def)
  next
    fix p assume n: "needs_reindexing fs pd dd w =
          (Inr True, emit (Log_reindexing_required p) (emit (Enter_needs_reindexing pd dd) w))"
    with assms True have "create_index be pd dd
        (emit (Log_reindexing_required p) (emit (Enter_needs_reindexing pd dd) w)) = (Inr index, w')"
      by (simp add: create_or_load_def)
    from create_index_Inr [OF this] True n show ?thesis by (simp add: emit_def)
  next
    assume n: "needs_reindexing fs pd dd w = (Inr False, emit (Enter_needs_reindexing pd dd) w)"
    with assms True have "load_index be pd (emit (Enter_needs_reindexing pd dd) w) = (Inr index, w')"
      by (simp add: create_or_load_def)
    from load_index_Inr [OF this] True n show ?thesis by (simp add: emit_def)
  qed
qed

lemma init_Inr:
  assumes "init fs be pd dd model_name request_timeout w = (Inr self, w')"
  shows "\<exists>u c index w2 qe.
           configure be model_name request_timeout = (Inr u, c)
         \<and> create_or_load fs be pd dd (tick c (emit (Call_configure model_name request_timeout) w))
             = (Inr index, w2)
         \<and> as_query_engine be index 4 = Inr qe
         \<and> self = \<lparr>load_duration = perf_counter w2
                      - perf_counter (tick c (emit (Call_configure model_name request_timeout) w)),
                    query_engine = qe, query_durations = length (heap w2)\<rparr>
         \<and> trace w' = trace w2 @ [Log_completed (load_duration self), Call_as_query_engine 4]
         \<and> heap w' = heap w2 @ [PyList []]"
  using assms
  by (auto simp: init_def Let_def alloc_def emit_def split: prod.splits sum.splits)

lemma init_query_log:
  assumes "init fs be pd dd model_name request_timeout w = (Inr self, w')"
  shows "query_log self w' = Some []"
proof -
  from init_Inr [OF assms] obtain u c index w2 qe where
    s: "self = \<lparr>load_duration = perf_counter w2
                      - perf_counter (tick c (emit (Call_configure model_name request_timeout) w)),
                    query_engine = qe, query_durations = length (heap w2)\<rparr>"
    and h: "heap w' = heap w2 @ [PyList []]"
    by blast
  have "query_durations self = length (heap w2)" by (subst s) simp
  with h show ?thesis by (simp add: query_log_deref deref_def)
qed

lemma round_half_even_between:
  assumes "of_int f \<le> x" and "x < of_int f + 1"
  shows "round_half_even x =
     (if x - of_int f < 1 / 2 then f else if 1 / 2 < x - of_int f then f + 1
      else if even f then f else f + 1)"
proof -
  from assms have "\<lfloor>x\<rfloor> = f" by (rule floor_unique)
  then show ?thesis by (simp add: round_half_even_def Let_def)
qed

lemma py_round_tie: "py_round (5 / 4) (Suc 0) = 6 / 5"
  using round_half_even_between [of 12 "25 / 2"] by (simp add: py_round_def)

lemma init_example:
  "init fs0 be0 ''cache'' ''data'' ''llama3.1'' 120 world0 = (Inr session2, world2)"
  by (simp add: init_def create_or_load_def exists_path_def needs_reindexing_def os_walk_def
      fs0_def joinpath_def emit_def world0_def be0_def create_index_def tick_def
      perf_counter_def alloc_def Let_def session2_def world2_def)

lemma run_example:
  "run calls2 session2 world2 =
     ([Answer ''Sauron'', Snapshot 1, Duration 3, Answer ''Sauron''], session2, world3)"
  by (simp add: calls2_def session2_def world2_def world3_def query_def Let_def emit_def tick_def
      perf_counter_def list_append_def deref_def py_round_tie get_query_durations_def
      tuple_of_def alloc_def get_load_duration_def add_divide_distrib)

lemma run_take_log:
  assumes "query_log self w = Some lg"
  shows "\<exists>ds. query_log (fst (snd (run (take k calls) self w))) (snd (snd (run (take k calls) self w)))
             = Some (lg @ ds)
           \<and> prefix ds (answered_durations (query_engine self) calls)"
proof -
  obtain o1 s1 w1 where r1: "run (take k calls) self w = (o1, s1, w1)"
    by (cases "run (take k calls) self w")
  obtain o2 s2 w2 where r2: "run (drop k calls) s1 w1 = (o2, s2, w2)"
    by (cases "run (drop k calls) s1 w1")
  have "run (take k calls @ drop k calls) self w = (o1 @ o2, s2, w2)"
    by (simp only: run_append r1 r2 prod.case)
  then have r: "run calls self w = (o1 @ o2, s2, w2)" by simp
  from run_invariant [OF assms r1]
  have l1: "query_log s1 w1 = Some (lg @ answered_durations (query_engine self) (take k calls))"
    by blast
  from run_invariant [OF l1 r2]
  have l2: "query_log s2 w2 = Some ((lg @ answered_durations (query_engine self) (take k calls))
              @ answered_durations (query_engine s1) (drop k calls))"
    by blast
  from run_invariant [OF assms r]
  have l: "query_log s2 w2 = Some (lg @ answered_durations (query_engine self) calls)"
    by blast
  from l l2 have "answered_durations (query_engine self) calls =
      answered_durations (query_engine self) (take k calls)
      @ answered_durations (query_engine s1) (drop k calls)"
    by simp
  then have "prefix (answered_durations (query_engine self) (take k calls))
      (answered_durations (query_engine self) calls)"
    by (simp add: prefix_def)
  with l1 show ?thesis by (simp add: r1)
qed

lemma perform_load_duration:
  "load_duration (fst (snd (perform c self w))) = load_duration self"
proof (cases c)
  case (Query msg)
  from query_fields(1) [of self msg w] show ?thesis
    by (auto simp: Query split: prod.splits sum.splits)
next
  case Get_load_duration
  then show ?thesis by simp
next
  case Get_query_durations
  then show ?thesis by (auto split: prod.splits sum.splits)
qed

lemma run_get_load_duration:
  assumes "run calls self w = (outs, self', w')"
  shows "length outs = length calls
       \<and> load_duration self' = load_duration self
       \<and> (\<forall>i<length calls. calls ! i = Get_load_duration
             \<longrightarrow> outs ! i = Duration (load_duration self))"
  using assms
proof (induction calls arbitrary: self w outs self' w')
  case Nil
  then show ?case by simp
next
  case (Cons c cs)
  obtain out s1 w1 where p: "perform c self w = (out, s1, w1)"
    by (cases "perform c self w")
  obtain outs1 s2 w2 where r: "run cs s1 w1 = (outs1, s2, w2)"
    by (cases "run cs s1 w1")
  from Cons.prems p r have eqs: "outs = out # outs1" "self' = s2" "w' = w2"
    by simp_all
  from perform_load_duration [of c self w] p have ld: "load_duration s1 = load_duration self"
    by simp
  have hd: "c = Get_load_duration \<longrightarrow> out = Duration (load_duration self)"
    using p by (auto simp: get_load_duration_def)
  from Cons.IH [OF r] have ih: "length outs1 = length cs" "load_duration s2 = load_duration s1"
    "\<forall>i<length cs. cs ! i = Get_load_duration \<longrightarrow> outs1 ! i = Duration (load_duration s1)"
    by simp_all
  show ?case
  proof (intro conjI allI impI)
    show "length outs = length (c # cs)" by (simp add: eqs ih)
    show "load_duration self' = load_duration self" by (simp add: eqs ih ld)
    fix i assume "i < length (c # cs)" and "(c # cs) ! i = Get_load_duration"
    then show "outs ! i = Duration (load_duration self)"
      using hd ih(3) ld by (cases i) (simp_all add: eqs)
  qed
qed

lemma needs_reindexing_empty_walk:
  fixes fs :: "('t::linorder) fs"
  assumes "os_walk fs data_dir = []" and "fs persistent_dir = Some (Dir t es)"
  shows "needs_reindexing fs persistent_dir data_dir w
           = (Inr False, emit (Enter_needs_reindexing persistent_dir data_dir) w)"
proof -
  from persistent_time_Dir [of fs persistent_dir t es, OF assms(2)]
  show ?thesis by (simp add: needs_reindexing_def Let_def assms(1))
qed

lemma create_or_load_absent_trace:
  assumes "\<not> exists_path fs pd"
  shows "\<exists>evs. trace (snd (create_or_load fs be pd dd w)) = trace w @ evs
           \<and> Enter_needs_reindexing pd dd \<notin> set evs"
  using assms create_index_trace [of be pd dd w] by (simp add: create_or_load_def)

lemma init_absent_trace:
  assumes "\<not> exists_path fs pd"
  shows "Enter_needs_reindexing pd dd
           \<notin> set (new_events w (snd (init fs be pd dd model_name request_timeout w)))"
proof -
  let ?w0 = "emit (Call_configure model_name request_timeout) w"
  obtain r c where cf: "configure be model_name request_timeout = (r, c)"
    by (cases "configure be model_name request_timeout")
  show ?thesis
  proof (cases r)
    case (Inl e)
    then show ?thesis
      by (simp add: init_def Let_def cf new_events_def tick_def emit_def)
  next
    case (Inr u)
    let ?w1 = "tick c ?w0"
    obtain ri w2 where cl: "create_or_load fs be pd dd ?w1 = (ri, w2)"
      by (cases "create_or_load fs be pd dd ?w1")
    from create_or_load_absent_trace [OF assms, of be dd ?w1] cl
    obtain evs where t2: "trace w2 = trace w @ Call_configure model_name request_timeout # evs"
      and ne: "Enter_needs_reindexing pd dd \<notin> set evs"
      by (auto simp: tick_def emit_def)
    show ?thesis
    proof (cases ri)
      case (Inl e)
      with t2 ne show ?thesis
        by (simp add: init_def Let_def cf Inr cl) (simp add: new_events_def)
    next
      case index: (Inr index)
      with t2 ne show ?thesis
        by (simp add: init_def Let_def cf Inr cl)
           (auto simp: new_events_def emit_def alloc_def split: sum.splits)
    qed
  qed
qed

lemma init_example_fresh:
  "init fs1 be0 ''cache'' ''data'' ''llama3.1'' 120 world0 = (Inr session3, world4)"
  by (simp add: init_def create_or_load_def exists_path_def needs_reindexing_def os_walk_def
      fs1_def joinpath_def emit_def world0_def be0_def load_index_def tick_def
      perf_counter_def alloc_def Let_def session3_def world4_def)

lemma init_success_calls:
  fixes fs :: "('t::linorder) fs"
  shows "(\<not> exists_path fs persistent_dir \<longrightarrow>
            Enter_needs_reindexing persistent_dir path_to_data
              \<notin> set (new_events w (snd (init fs be persistent_dir path_to_data model_name request_timeout w))))
       \<and> (\<forall>self w'.
            init fs be persistent_dir path_to_data model_name request_timeout w = (Inr self, w') \<longrightarrow>
              (if \<not> exists_path fs persistent_dir
                  \<or> fst (needs_reindexing fs persistent_dir path_to_data w) = Inr True
               then collaborator_calls (new_events w w') =
                      [Call_configure model_name request_timeout, Call_load_data path_to_data,
                       Call_from_documents, Call_persist persistent_dir, Call_as_query_engine 4]
               else collaborator_calls (new_events w w') =
                      [Call_configure model_name request_timeout, Call_load_index persistent_dir,
                       Call_as_query_engine 4])
            \<and> (Enter_needs_reindexing persistent_dir path_to_data \<in> set (new_events w w'))
                = exists_path fs persistent_dir)"
proof (intro conjI allI impI)
  assume "\<not> exists_path fs persistent_dir"
  then show "Enter_needs_reindexing persistent_dir path_to_data
      \<notin> set (new_events w (snd (init fs be persistent_dir path_to_data model_name request_timeout w)))"
    by (rule init_absent_trace)
next
  fix self w'
  assume ok: "init fs be persistent_dir path_to_data model_name request_timeout w = (Inr self, w')"
  from init_Inr [OF ok] obtain u c index w2 where
    cl: "create_or_load fs be persistent_dir path_to_data
           (tick c (emit (Call_configure model_name request_timeout) w)) = (Inr index, w2)"
    and tr: "trace w' = trace w2 @ [Log_completed (load_duration self), Call_as_query_engine 4]"
    by blast
  let ?w1 = "tick c (emit (Call_configure model_name request_timeout) w)"
  have t1: "trace ?w1 = trace w @ [Call_configure model_name request_timeout]"
    by (simp add: tick_def emit_def)
  have st: "fst (needs_reindexing fs persistent_dir path_to_data ?w1)
      = fst (needs_reindexing fs persistent_dir path_to_data w)"
    by (rule needs_reindexing_result_world)
  from create_or_load_Inr [OF cl]
  have both: "(if \<not> exists_path fs persistent_dir
                  \<or> fst (needs_reindexing fs persistent_dir path_to_data w) = Inr True
               then collaborator_calls (new_events w w') =
                      [Call_configure model_name request_timeout, Call_load_data path_to_data,
                       Call_from_documents, Call_persist persistent_dir, Call_as_query_engine 4]
               else collaborator_calls (new_events w w') =
                      [Call_configure model_name request_timeout, Call_load_index persistent_dir,
                       Call_as_query_engine 4])
            \<and> (Enter_needs_reindexing persistent_dir path_to_data \<in> set (new_events w w'))
                = exists_path fs persistent_dir"
    unfolding st
  proof (elim disjE conjE exE)
    assume "\<not> exists_path fs persistent_dir"
      and "trace w2 = trace ?w1 @ [Log_creating path_to_data, Call_load_data path_to_data,
              Call_from_documents, Call_persist persistent_dir, Log_persisted persistent_dir]"
    then show ?thesis
      by (simp add: tr t1 new_events_def collaborator_calls_def)
  next
    fix p
    assume "exists_path fs persistent_dir"
      and "fst (needs_reindexing fs persistent_dir path_to_data w) = Inr True"
      and "trace w2 = trace ?w1 @ [Enter_needs_reindexing persistent_dir path_to_data,
              Log_reindexing_required p, Log_creating path_to_data, Call_load_data path_to_data,
              Call_from_documents, Call_persist persistent_dir, Log_persisted persistent_dir]"
    then show ?thesis
      by (simp add: tr t1 new_events_def collaborator_calls_def)
  next
    assume "exists_path fs persistent_dir"
      and "fst (needs_reindexing fs persistent_dir path_to_data w) = Inr False"
      and "trace w2 = trace ?w1 @ [Enter_needs_reindexing persistent_dir path_to_data,
              Log_loading persistent_dir, Call_load_index persistent_dir]"
    then show ?thesis
      by (simp add: tr t1 new_events_def collaborator_calls_def)
  qed
  from both show "if \<not> exists_path fs persistent_dir
                  \<or> fst (needs_reindexing fs persistent_dir path_to_data w) = Inr True
               then collaborator_calls (new_events w w') =
                      [Call_configure model_name request_timeout, Call_load_data path_to_data,
                       Call_from_documents, Call_persist persistent_dir, Call_as_query_engine 4]
               else collaborator_calls (new_events w w') =
                      [Call_configure model_name request_timeout, Call_load_index persistent_dir,
                       Call_as_query_engine 4]"
    by blast
  from both show "(Enter_needs_reindexing persistent_dir path_to_data \<in> set (new_events w w'))
                = exists_path fs persistent_dir"
    by blast
qed

lemma create_index_ok:
  assumes "load_data be dd = (Inr docs, c1)"
    and "from_documents be docs = (Inr index, c2)"
    and "persist be index pd = (Inr u, c3)"
  shows "create_index be pd dd w =
     (Inr index,
      w\<lparr>clock := clock w + c1 + c2 + c3,
        trace := trace w @ [Log_creating dd, Call_load_data dd, Call_from_documents,
                            Call_persist pd, Log_persisted pd]\<rparr>)"
  using assms by (simp add: create_index_def Let_def emit_def tick_def)

lemma create_index_flow:
  assumes "create_index be pd dd w = (Inr index, w')"
  shows "\<exists>docs c1 c2 u c3.
           load_data be dd = (Inr docs, c1)
         \<and> from_documents be docs = (Inr index, c2)
         \<and> persist be index pd = (Inr u, c3)"
  using assms
  by (auto simp: create_index_def Let_def split: prod.splits sum.splits)

lemma create_index_events:
  "\<exists>rest. trace (snd (create_index be pd dd w))
             = trace w @ Log_creating dd # Call_load_data dd # rest
         \<and> set rest \<subseteq> {Call_from_documents, Call_persist pd, Log_persisted pd}"
  by (auto simp: create_index_def Let_def emit_def tick_def split: prod.splits sum.splits)

lemma load_index_ok:
  assumes "load_index_from_storage be pd = (Inr index, c1)"
  shows "load_index be pd w =
     (Inr index, w\<lparr>clock := clock w + c1, trace := trace w @ [Log_loading pd, Call_load_index pd]\<rparr>)"
  using assms by (simp add: load_index_def Let_def emit_def tick_def)

lemma load_index_flow:
  assumes "load_index be pd w = (Inr index, w')"
  shows "\<exists>c1. load_index_from_storage be pd = (Inr index, c1)"
  using assms
  by (auto simp: load_index_def Let_def split: prod.splits sum.splits)

lemma load_index_events:
  "trace (snd (load_index be pd w)) = trace w @ [Log_loading pd, Call_load_index pd]"
  by (auto simp: load_index_def Let_def emit_def tick_def split: prod.splits sum.splits)

text \<open>The three ways line 40 can go.\<close>

lemma create_or_load_stale:
  assumes "\<not> exists_path fs pd \<or> fst (needs_reindexing fs pd dd w) = Inr True"
  shows "\<exists>pre. create_or_load fs be pd dd w
             = create_index be pd dd (w\<lparr>trace := trace w @ pre\<rparr>)
         \<and> filter is_call pre = []
         \<and> (Enter_needs_reindexing pd dd \<in> set pre) = exists_path fs pd"
proof (cases "exists_path fs pd")
  case False
  then have "create_or_load fs be pd dd w = create_index be pd dd (w\<lparr>trace := trace w @ []\<rparr>)"
    by (simp add: create_or_load_def)
  with False show ?thesis by (intro exI [of _ "[]"]) simp
next
  case True
  with assms have st: "fst (needs_reindexing fs pd dd w) = Inr True" by simp
  with needs_reindexing_cases [of fs pd dd w] obtain p where
    n: "needs_reindexing fs pd dd w =
          (Inr True, emit (Log_reindexing_required p) (emit (Enter_needs_reindexing pd dd) w))"
    by auto
  have "create_or_load fs be pd dd w = create_index be pd dd
      (w\<lparr>trace := trace w @ [Enter_needs_reindexing pd dd, Log_reindexing_required p]\<rparr>)"
    using True by (simp add: create_or_load_def n emit_def)
  with True show ?thesis
    by (intro exI [of _ "[Enter_needs_reindexing pd dd, Log_reindexing_required p]"]) simp
qed

lemma create_or_load_fresh:
  assumes "exists_path fs pd" and "fst (needs_reindexing fs pd dd w) = Inr False"
  shows "create_or_load fs be pd dd w
           = load_index be pd (w\<lparr>trace := trace w @ [Enter_needs_reindexing pd dd]\<rparr>)"
proof -
  from assms(2) needs_reindexing_cases [of fs pd dd w]
  have "needs_reindexing fs pd dd w = (Inr False, emit (Enter_needs_reindexing pd dd) w)"
    by auto
  with assms(1) show ?thesis by (simp add: create_or_load_def emit_def)
qed

lemma create_or_load_check_raises:
  assumes "exists_path fs pd" and "fst (needs_reindexing fs pd dd w) = Inl e"
  shows "create_or_load fs be pd dd w
           = (Inl e, w\<lparr>trace := trace w @ [Enter_needs_reindexing pd dd]\<rparr>)"
proof -
  from assms(2) needs_reindexing_cases [of fs pd dd w]
  have "needs_reindexing fs pd dd w = (Inl e, emit (Enter_needs_reindexing pd dd) w)"
    by auto
  with assms(1) show ?thesis by (simp add: create_or_load_def emit_def)
qed

lemma init_events:
  assumes "configure be model_name request_timeout = (Inr u, c0)"
  shows "\<exists>tail. trace (snd (init fs be pd dd model_name request_timeout w))
             = trace (snd (create_or_load fs be pd dd
                  (tick c0 (emit (Call_configure model_name request_timeout) w)))) @ tail
         \<and> (\<forall>e\<in>set tail. e = Call_as_query_engine 4 \<or> (\<exists>ld. e = Log_completed ld))"
proof -
  let ?w1 = "tick c0 (emit (Call_configure model_name request_timeout) w)"
  obtain r w2 where col: "create_or_load fs be pd dd ?w1 = (r, w2)"
    by (cases "create_or_load fs be pd dd ?w1")
  show ?thesis
  proof (cases r)
    case (Inl e)
    then have "init fs be pd dd model_name request_timeout w = (Inl e, w2)"
      by (simp add: init_def Let_def assms col)
    then show ?thesis by (simp add: col)
  next
    case (Inr index)
    then have "trace (snd (init fs be pd dd model_name request_timeout w))
        = trace w2 @ [Log_completed (perf_counter w2 - perf_counter ?w1), Call_as_query_engine 4]"
      by (simp add: init_def Let_def assms col)
         (auto simp: emit_def alloc_def split: sum.splits)
    then show ?thesis by (simp add: col)
  qed
qed

lemma init_rebuild_ok:
  fixes fs :: "('t::linorder) fs"
  assumes cf: "configure be model_name request_timeout = (Inr u, c0)"
    and stale: "\<not> exists_path fs pd \<or> fst (needs_reindexing fs pd dd w) = Inr True"
    and ld: "load_data be dd = (Inr docs, c1)"
    and fd: "from_documents be docs = (Inr index, c2)"
    and ps: "persist be index pd = (Inr u', c3)"
    and aq: "as_query_engine be index 4 = Inr qe"
  shows "\<exists>self w'. init fs be pd dd model_name request_timeout w = (Inr self, w')
       \<and> query_engine self = qe
       \<and> load_duration self = of_nat (c1 + c2 + c3) / 1000000000
       \<and> collaborator_calls (new_events w w') =
            [Call_configure model_name request_timeout, Call_load_data dd,
             Call_from_documents, Call_persist pd, Call_as_query_engine 4]"
proof -
  let ?w1 = "tick c0 (emit (Call_configure model_name request_timeout) w)"
  from stale have "\<not> exists_path fs pd \<or> fst (needs_reindexing fs pd dd ?w1) = Inr True"
    using needs_reindexing_result_world [of fs pd dd ?w1 w] by simp
  from create_or_load_stale [OF this, of be] obtain pre where
    col: "create_or_load fs be pd dd ?w1 = create_index be pd dd (?w1\<lparr>trace := trace ?w1 @ pre\<rparr>)"
    and pre: "filter is_call pre = []"
    by blast
  define w2 where "w2 = (?w1\<lparr>trace := trace ?w1 @ pre\<rparr>)
      \<lparr>clock := clock (?w1\<lparr>trace := trace ?w1 @ pre\<rparr>) + c1 + c2 + c3,
       trace := trace (?w1\<lparr>trace := trace ?w1 @ pre\<rparr>)
                @ [Log_creating dd, Call_load_data dd, Call_from_documents,
                   Call_persist pd, Log_persisted pd]\<rparr>"
  have col2: "create_or_load fs be pd dd ?w1 = (Inr index, w2)"
    unfolding col w2_def by (rule create_index_ok [OF ld fd ps])
  define self where "self = \<lparr>load_duration = perf_counter w2 - perf_counter ?w1,
      query_engine = qe, query_durations = length (heap w2)\<rparr>"
  define w' where "w' = (emit (Call_as_query_engine 4)
      (emit (Log_completed (perf_counter w2 - perf_counter ?w1)) w2))
      \<lparr>heap := heap w2 @ [PyList []]\<rparr>"
  have i: "init fs be pd dd model_name request_timeout w = (Inr self, w')"
    unfolding self_def w'_def
    by (simp add: init_def Let_def cf col2 aq)
       (simp add: alloc_def emit_def)
  have q: "query_engine self = qe" by (simp add: self_def)
  have d: "load_duration self = of_nat (c1 + c2 + c3) / 1000000000"
    by (simp add: self_def w2_def perf_counter_def tick_def emit_def add_divide_distrib)
  have "trace w' = trace w @ Call_configure model_name request_timeout # pre
      @ [Log_creating dd, Call_load_data dd, Call_from_documents, Call_persist pd,
         Log_persisted pd, Log_completed (perf_counter w2 - perf_counter ?w1),
         Call_as_query_engine 4]"
    by (simp add: w'_def w2_def emit_def tick_def)
  then have c: "collaborator_calls (new_events w w') =
            [Call_configure model_name request_timeout, Call_load_data dd,
             Call_from_documents, Call_persist pd, Call_as_query_engine 4]"
    by (simp add: new_events_def collaborator_calls_def pre)
  from i q d c show ?thesis by blast
qed

lemma init_reload_ok:
  fixes fs :: "('t::linorder) fs"
  assumes cf: "configure be model_name request_timeout = (Inr u, c0)"
    and ex: "exists_path fs pd"
    and fresh: "fst (needs_reindexing fs pd dd w) = Inr False"
    and li: "load_index_from_storage be pd = (Inr index, c1)"
    and aq: "as_query_engine be index 4 = Inr qe"
  shows "\<exists>self w'. init fs be pd dd model_name request_timeout w = (Inr self, w')
       \<and> query_engine self = qe
       \<and> load_duration self = of_nat c1 / 1000000000
       \<and> collaborator_calls (new_events w w') =
            [Call_configure model_name request_timeout, Call_load_index pd,
             Call_as_query_engine 4]"
proof -
  let ?w1 = "tick c0 (emit (Call_configure model_name request_timeout) w)"
  from fresh have "fst (needs_reindexing fs pd dd ?w1) = Inr False"
    using needs_reindexing_result_world [of fs pd dd ?w1 w] by simp
  from create_or_load_fresh [OF ex this, of be]
  have col: "create_or_load fs be pd dd ?w1
      = load_index be pd (?w1\<lparr>trace := trace ?w1 @ [Enter_needs_reindexing pd dd]\<rparr>)" .
  define w2 where "w2 = (?w1\<lparr>trace := trace ?w1 @ [Enter_needs_reindexing pd dd]\<rparr>)
      \<lparr>clock := clock (?w1\<lparr>trace := trace ?w1 @ [Enter_needs_reindexing pd dd]\<rparr>) + c1,
       trace := trace (?w1\<lparr>trace := trace ?w1 @ [Enter_needs_reindexing pd dd]\<rparr>)
                @ [Log_loading pd, Call_load_index pd]\<rparr>"
  have col2: "create_or_load fs be pd dd ?w1 = (Inr index, w2)"
    unfolding col w2_def by (rule load_index_ok [OF li])
  define self where "self = \<lparr>load_duration = perf_counter w2 - perf_counter ?w1,
      query_engine = qe, query_durations = length (heap w2)\<rparr>"
  define w' where "w' = (emit (Call_as_query_engine 4)
      (emit (Log_completed (perf_counter w2 - perf_counter ?w1)) w2))
      \<lparr>heap := heap w2 @ [PyList []]\<rparr>"
  have i: "init fs be pd dd model_name request_timeout w = (Inr self, w')"
    unfolding self_def w'_def
    by (simp add: init_def Let_def cf col2 aq)
       (simp add: alloc_def emit_def)
  have q: "query_engine self = qe" by (simp add: self_def)
  have d: "load_duration self = of_nat c1 / 1000000000"
    by (simp add: self_def w2_def perf_counter_def tick_def emit_def add_divide_distrib)
  have "trace w' = trace w @ [Call_configure model_name request_timeout,
         Enter_needs_reindexing pd dd, Log_loading pd, Call_load_index pd,
         Log_completed (perf_counter w2 - perf_counter ?w1), Call_as_query_engine 4]"
    by (simp add: w'_def w2_def emit_def tick_def)
  then have c: "collaborator_calls (new_events w w') =
            [Call_configure model_name request_timeout, Call_load_index pd,
             Call_as_query_engine 4]"
    by (simp add: new_events_def collaborator_calls_def)
  from i q d c show ?thesis by blast
qed

lemma init_Inr_flow:
  fixes fs :: "('t::linorder) fs"
  assumes ok: "init fs be pd dd model_name request_timeout w = (Inr self, w')"
  shows "if \<not> exists_path fs pd \<or> fst (needs_reindexing fs pd dd w) = Inr True
         then \<exists>docs c1 index c2 u c3.
                load_data be dd = (Inr docs, c1)
              \<and> from_documents be docs = (Inr index, c2)
              \<and> persist be index pd = (Inr u, c3)
              \<and> as_query_engine be index 4 = Inr (query_engine self)
         else \<exists>index c1.
                load_index_from_storage be pd = (Inr index, c1)
              \<and> as_query_engine be index 4 = Inr (query_engine self)"
proof -
  from init_Inr [OF ok] obtain u c index w2 qe where
    col: "create_or_load fs be pd dd
           (tick c (emit (Call_configure model_name request_timeout) w)) = (Inr index, w2)"
    and aq: "as_query_engine be index 4 = Inr qe"
    and s: "self = \<lparr>load_duration = perf_counter w2
                      - perf_counter (tick c (emit (Call_configure model_name request_timeout) w)),
                    query_engine = qe, query_durations = length (heap w2)\<rparr>"
    by blast
  let ?w1 = "tick c (emit (Call_configure model_name request_timeout) w)"
  have qe: "query_engine self = qe" by (subst s) simp
  have st: "fst (needs_reindexing fs pd dd ?w1) = fst (needs_reindexing fs pd dd w)"
    by (rule needs_reindexing_result_world)
  show ?thesis
  proof (cases "\<not> exists_path fs pd \<or> fst (needs_reindexing fs pd dd w) = Inr True")
    case True
    then have "\<not> exists_path fs pd \<or> fst (needs_reindexing fs pd dd ?w1) = Inr True"
      by (simp add: st)
    from create_or_load_stale [OF this, of be] col obtain w1' where
      "create_index be pd dd w1' = (Inr index, w2)"
      by auto
    from create_index_flow [OF this] aq True show ?thesis
      by (simp add: qe) blast
  next
    case False
    then have ex: "exists_path fs pd" and ns: "fst (needs_reindexing fs pd dd w) \<noteq> Inr True"
      by simp_all
    have "fst (needs_reindexing fs pd dd ?w1) = Inr False"
    proof (cases "fst (needs_reindexing fs pd dd ?w1)")
      case (Inl e)
      from create_or_load_check_raises [OF ex Inl, of be] col show ?thesis by simp
    next
      case (Inr b)
      with ns st show ?thesis by (cases b) simp_all
    qed
    from create_or_load_fresh [OF ex this, of be] col obtain w1' where
      "load_index be pd w1' = (Inr index, w2)"
      by auto
    from load_index_flow [OF this] aq False show ?thesis
      by (simp add: qe) blast
  qed
qed

lemma init_check_raises:
  fixes fs :: "('t::linorder) fs"
  assumes cf: "configure be model_name request_timeout = (Inr u, c0)"
    and ex: "exists_path fs pd"
    and rs: "fst (needs_reindexing fs pd dd w) = Inl e"
  shows "fst (init fs be pd dd model_name request_timeout w) = Inl e
       \<and> collaborator_calls (new_events w (snd (init fs be pd dd model_name request_timeout w)))
           = [Call_configure model_name request_timeout]"
proof -
  let ?w1 = "tick c0 (emit (Call_configure model_name request_timeout) w)"
  from rs have "fst (needs_reindexing fs pd dd ?w1) = Inl e"
    using needs_reindexing_result_world [of fs pd dd ?w1 w] by simp
  from create_or_load_check_raises [OF ex this, of be]
  have "init fs be pd dd model_name request_timeout w
      = (Inl e, ?w1\<lparr>trace := trace ?w1 @ [Enter_needs_reindexing pd dd]\<rparr>)"
    by (simp add: init_def Let_def cf)
  then show ?thesis
    by (simp add: new_events_def collaborator_calls_def tick_def emit_def)
qed

lemma init_enters_rebuild:
  fixes fs :: "('t::linorder) fs"
  assumes cf: "configure be model_name request_timeout = (Inr u, c0)"
    and stale: "\<not> exists_path fs pd \<or> fst (needs_reindexing fs pd dd w) = Inr True"
  shows "\<exists>rest. collaborator_calls (new_events w (snd (init fs be pd dd model_name request_timeout w)))
             = Call_configure model_name request_timeout # Call_load_data dd # rest
         \<and> Call_load_index pd \<notin> set rest"
proof -
  let ?w1 = "tick c0 (emit (Call_configure model_name request_timeout) w)"
  from stale have "\<not> exists_path fs pd \<or> fst (needs_reindexing fs pd dd ?w1) = Inr True"
    using needs_reindexing_result_world [of fs pd dd ?w1 w] by simp
  from create_or_load_stale [OF this, of be] obtain pre where
    col: "create_or_load fs be pd dd ?w1 = create_index be pd dd (?w1\<lparr>trace := trace ?w1 @ pre\<rparr>)"
    and pre: "filter is_call pre = []"
    by blast
  let ?w1' = "?w1\<lparr>trace := trace ?w1 @ pre\<rparr>"
  from create_index_events [of be pd dd ?w1'] obtain rest where
    a: "trace (snd (create_index be pd dd ?w1'))
          = trace ?w1' @ Log_creating dd # Call_load_data dd # rest"
    and rest: "set rest \<subseteq> {Call_from_documents, Call_persist pd, Log_persisted pd}"
    by blast
  have tw: "trace ?w1' = trace w @ Call_configure model_name request_timeout # pre"
    by (simp add: tick_def emit_def)
  have t2: "trace (snd (create_or_load fs be pd dd ?w1))
           = trace w @ Call_configure model_name request_timeout # pre
             @ Log_creating dd # Call_load_data dd # rest"
    unfolding col a tw by simp
  from init_events [OF cf, of fs pd dd w] obtain tail where
    t: "trace (snd (init fs be pd dd model_name request_timeout w))
          = trace (snd (create_or_load fs be pd dd ?w1)) @ tail"
    and tail: "\<forall>e\<in>set tail. e = Call_as_query_engine 4 \<or> (\<exists>ld. e = Log_completed ld)"
    by blast
  have "collaborator_calls (new_events w (snd (init fs be pd dd model_name request_timeout w)))
      = Call_configure model_name request_timeout # Call_load_data dd
        # (filter is_call rest @ filter is_call tail)"
    by (simp add: t t2 new_events_def collaborator_calls_def pre)
  moreover have "Call_load_index pd \<notin> set (filter is_call rest @ filter is_call tail)"
    using rest tail by auto
  ultimately show ?thesis by blast
qed

lemma init_enters_reload:
  fixes fs :: "('t::linorder) fs"
  assumes cf: "configure be model_name request_timeout = (Inr u, c0)"
    and ex: "exists_path fs pd"
    and fresh: "fst (needs_reindexing fs pd dd w) = Inr False"
  shows "\<exists>rest. collaborator_calls (new_events w (snd (init fs be pd dd model_name request_timeout w)))
             = Call_configure model_name request_timeout # Call_load_index pd # rest
         \<and> Call_load_data dd \<notin> set rest \<and> Call_from_documents \<notin> set rest
         \<and> Call_persist pd \<notin> set rest"
proof -
  let ?w1 = "tick c0 (emit (Call_configure model_name request_timeout) w)"
  from fresh have "fst (needs_reindexing fs pd dd ?w1) = Inr False"
    using needs_reindexing_result_world [of fs pd dd ?w1 w] by simp
  from create_or_load_fresh [OF ex this, of be]
  have col: "create_or_load fs be pd dd ?w1
      = load_index be pd (?w1\<lparr>trace := trace ?w1 @ [Enter_needs_reindexing pd dd]\<rparr>)" .
  have tw: "trace (?w1\<lparr>trace := trace ?w1 @ [Enter_needs_reindexing pd dd]\<rparr>)
      = trace w @ [Call_configure model_name request_timeout, Enter_needs_reindexing pd dd]"
    by (simp add: tick_def emit_def)
  have t2: "trace (snd (create_or_load fs be pd dd ?w1))
           = trace w @ [Call_configure model_name request_timeout,
                        Enter_needs_reindexing pd dd, Log_loading pd, Call_load_index pd]"
    unfolding col load_index_events tw by simp
  from init_events [OF cf, of fs pd dd w] obtain tail where
    t: "trace (snd (init fs be pd dd model_name request_timeout w))
          = trace (snd (create_or_load fs be pd dd ?w1)) @ tail"
    and tail: "\<forall>e\<in>set tail. e = Call_as_query_engine 4 \<or> (\<exists>ld. e = Log_completed ld)"
    by blast
  have "collaborator_calls (new_events w (snd (init fs be pd dd model_name request_timeout w)))
      = Call_configure model_name request_timeout # Call_load_index pd # filter is_call tail"
    by (simp add: t t2 new_events_def collaborator_calls_def)
  moreover have "Call_load_data dd \<notin> set (filter is_call tail)"
    "Call_from_documents \<notin> set (filter is_call tail)"
    "Call_persist pd \<notin> set (filter is_call tail)"
    using tail by auto
  ultimately show ?thesis by blast
qed

lemma init_example_absent:
  "init fs1 be0 ''nocache'' ''data'' ''llama3.1'' 120 world0 = (Inr session2, world5)"
  by (simp add: init_def create_or_load_def exists_path_def fs1_def emit_def world0_def
      be0_def create_index_def tick_def perf_counter_def alloc_def Let_def session2_def
      world5_def)

section \<open>The claims\<close>

text \<open>
  C1. When the cache directory exists (and can be listed), the staleness check returns
  true if and only if some regular file under the source directory has a modification
  time strictly greater than the cache time, the greatest modification time of the
  directories reachable under the cache directory. When it returns true it reports the
  first such file in the order of the walk and looks no further; an empty source directory
  yields false.
\<close>

theorem staleness_check_iff_newer_file:
  fixes fs :: "('t::linorder) fs"
  assumes "fs persistent_dir = Some (Dir t es)"
  shows "\<exists>cache_time r.
           needs_reindexing fs persistent_dir data_dir w = r
         \<and> py_max (map root_mtime (os_walk fs persistent_dir)) = Inr cache_time
         \<and> cache_time \<in> reachable_dir_mtimes (Dir t es)
         \<and> (\<forall>m\<in>reachable_dir_mtimes (Dir t es). m \<le> cache_time)
         \<and> fst r = Inr (\<exists>(p, m)\<in>source_files fs data_dir. cache_time < m)
         \<and> trace (snd r) = trace w @ Enter_needs_reindexing persistent_dir data_dir #
              (case find (\<lambda>(p, m). cache_time < m) (visited_files (os_walk fs data_dir)) of
                 None \<Rightarrow> [] | Some (p, m) \<Rightarrow> [Log_reindexing_required p])
         \<and> ((\<exists>t'. fs data_dir = Some (Dir t' [])) \<longrightarrow> fst r = Inr False)"
proof -
  define T where "T = Max (reachable_dir_mtimes (Dir t es))"
  define r where "r = needs_reindexing fs persistent_dir data_dir w"
  define found where "found = find (\<lambda>(p, m). T < m) (visited_files (os_walk fs data_dir))"
  have pt: "py_max (map root_mtime (os_walk fs persistent_dir)) = Inr T"
    unfolding T_def using assms by (rule persistent_time_Dir [of fs persistent_dir t es])
  have fin: "finite (reachable_dir_mtimes (Dir t es))"
    by (rule finite_reachable_dir_mtimes)
  have ne: "reachable_dir_mtimes (Dir t es) \<noteq> {}" by simp
  have mem: "T \<in> reachable_dir_mtimes (Dir t es)"
    unfolding T_def using Max_in [OF fin ne] .
  have ub: "\<forall>m\<in>reachable_dir_mtimes (Dir t es). m \<le> T"
    unfolding T_def using Max_ge [OF fin] by blast
  have loop: "walk_loop T (os_walk fs data_dir) = map_option fst found"
    unfolding found_def by (rule walk_loop_find)
  have ex: "(found \<noteq> None) = (\<exists>(p, m)\<in>source_files fs data_dir. T < m)"
    unfolding found_def find_None_iff_Bex visited_source_files ..
  have res: "fst r = Inr (\<exists>(p, m)\<in>source_files fs data_dir. T < m)"
    unfolding ex [symmetric] r_def
    by (cases found) (simp_all add: needs_reindexing_def pt loop Let_def)
  have tr: "trace (snd r) = trace w @ Enter_needs_reindexing persistent_dir data_dir #
              (case found of None \<Rightarrow> [] | Some (p, m) \<Rightarrow> [Log_reindexing_required p])"
    unfolding r_def
    by (cases found) (auto simp: needs_reindexing_def pt loop Let_def emit_def)
  have empty: "(\<exists>t'. fs data_dir = Some (Dir t' [])) \<longrightarrow> fst r = Inr False"
    unfolding res by (auto simp: source_files_def)
  from pt mem ub res tr empty show ?thesis
    unfolding r_def found_def by blast
qed

theorem staleness_check_iff_newer_file_witness:
  "fs0 ''cache'' = Some (Dir 10 [(''a'', File 40), (''sub'', Dir 12 [])])
   \<and> fst (needs_reindexing fs0 ''cache'' ''data'' world0) = Inr True
   \<and> trace (snd (needs_reindexing fs0 ''cache'' ''data'' world0)) =
        [Enter_needs_reindexing ''cache'' ''data'', Log_reindexing_required ''data/d/y.txt'']
   \<and> fst (needs_reindexing fs0 ''data'' ''cache'' world0) = Inr False"
proof -
  have h: "fs0 ''cache'' = Some (Dir 10 [(''a'', File 40), (''sub'', Dir 12 [])])"
    by (simp add: fs0_def)
  have t: "py_max (map root_mtime (os_walk fs0 ''cache'')) = Inr 12"
    by (simp add: os_walk_def h joinpath_def)
  from staleness_check_iff_newer_file [of fs0 "''cache''" 10 "[(''a'', File 40), (''sub'', Dir 12 [])]" "''data''" world0, OF h]
  obtain T where
    "py_max (map root_mtime (os_walk fs0 ''cache'')) = Inr T"
    "fst (needs_reindexing fs0 ''cache'' ''data'' world0) = Inr (\<exists>(p, m)\<in>source_files fs0 ''data''. T < m)"
    "trace (snd (needs_reindexing fs0 ''cache'' ''data'' world0)) = trace world0 @ Enter_needs_reindexing ''cache'' ''data'' #
              (case find (\<lambda>(p, m). T < m) (visited_files (os_walk fs0 ''data'')) of
                 None \<Rightarrow> [] | Some (p, m) \<Rightarrow> [Log_reindexing_required p])"
    by blast
  with t have
    a: "fst (needs_reindexing fs0 ''cache'' ''data'' world0) = Inr (\<exists>(p, m)\<in>source_files fs0 ''data''. 12 < m)"
    and b: "trace (snd (needs_reindexing fs0 ''cache'' ''data'' world0)) = trace world0 @ Enter_needs_reindexing ''cache'' ''data'' #
              (case find (\<lambda>(p, m). 12 < m) (visited_files (os_walk fs0 ''data'')) of
                 None \<Rightarrow> [] | Some (p, m) \<Rightarrow> [Log_reindexing_required p])"
    by simp_all
  have c: "fst (needs_reindexing fs0 ''data'' ''cache'' world0) = Inr False"
    by (simp add: needs_reindexing_def os_walk_def fs0_def joinpath_def Let_def)
  show ?thesis
    unfolding a b using h c
    by (simp add: source_files_def fs0_def joinpath_def os_walk_def visited_files_def world0_def)
qed

text \<open>
  C2. Every construction takes one of two paths, decided by line 40. When the cache
  directory does not exist or the staleness check reports stale, \<^verbatim>\<open>__init__\<close> loads the
  documents of the source directory, builds an index from those documents and persists
  that index to the cache directory; otherwise it loads an index from the cache
  directory. Either way the query engine of the instance is made from that very index.
  The theorem states this in both directions (from the collaborators' results to the
  instance, and from a returned instance back to the collaborators' results), names the
  first collaborator call of each path also when a later call raises, and covers the two
  ways out of the scheme: the staleness check is not entered when the cache directory
  does not exist, and when the check itself raises, the error leaves the constructor and
  no index is created or loaded.
\<close>

theorem init_creates_or_loads:
  fixes fs :: "('t::linorder) fs"
  shows
   "(\<not> exists_path fs persistent_dir \<longrightarrow>
       Enter_needs_reindexing persistent_dir path_to_data
         \<notin> set (new_events w (snd (init fs be persistent_dir path_to_data model_name request_timeout w))))
  \<and> (\<forall>u c0. configure be model_name request_timeout = (Inr u, c0) \<longrightarrow>
        (rebuild_condition fs persistent_dir path_to_data w \<longrightarrow>
           (\<exists>rest. collaborator_calls
                     (new_events w (snd (init fs be persistent_dir path_to_data model_name request_timeout w)))
                   = Call_configure model_name request_timeout # Call_load_data path_to_data # rest
                 \<and> Call_load_index persistent_dir \<notin> set rest))
      \<and> (exists_path fs persistent_dir
            \<and> fst (needs_reindexing fs persistent_dir path_to_data w) = Inr False \<longrightarrow>
           (\<exists>rest. collaborator_calls
                     (new_events w (snd (init fs be persistent_dir path_to_data model_name request_timeout w)))
                   = Call_configure model_name request_timeout # Call_load_index persistent_dir # rest
                 \<and> Call_load_data path_to_data \<notin> set rest
                 \<and> Call_from_documents \<notin> set rest
                 \<and> Call_persist persistent_dir \<notin> set rest))
      \<and> (\<forall>e. exists_path fs persistent_dir
            \<and> fst (needs_reindexing fs persistent_dir path_to_data w) = Inl e \<longrightarrow>
           fst (init fs be persistent_dir path_to_data model_name request_timeout w) = Inl e
           \<and> collaborator_calls
                (new_events w (snd (init fs be persistent_dir path_to_data model_name request_timeout w)))
              = [Call_configure model_name request_timeout])
      \<and> (\<forall>docs c1 index c2 u' c3 qe.
            rebuild_condition fs persistent_dir path_to_data w
            \<and> load_data be path_to_data = (Inr docs, c1)
            \<and> from_documents be docs = (Inr index, c2)
            \<and> persist be index persistent_dir = (Inr u', c3)
            \<and> as_query_engine be index 4 = Inr qe \<longrightarrow>
           (\<exists>self w'. init fs be persistent_dir path_to_data model_name request_timeout w = (Inr self, w')
              \<and> query_engine self = qe
              \<and> load_duration self = of_nat (c1 + c2 + c3) / 1000000000
              \<and> collaborator_calls (new_events w w')
                  = rebuild_calls model_name request_timeout persistent_dir path_to_data))
      \<and> (\<forall>index c1 qe.
            exists_path fs persistent_dir
            \<and> fst (needs_reindexing fs persistent_dir path_to_data w) = Inr False
            \<and> load_index_from_storage be persistent_dir = (Inr index, c1)
            \<and> as_query_engine be index 4 = Inr qe \<longrightarrow>
           (\<exists>self w'. init fs be persistent_dir path_to_data model_name request_timeout w = (Inr self, w')
              \<and> query_engine self = qe
              \<and> load_duration self = of_nat c1 / 1000000000
              \<and> collaborator_calls (new_events w w')
                  = reload_calls model_name request_timeout persistent_dir)))
  \<and> (\<forall>self w'.
        init fs be persistent_dir path_to_data model_name request_timeout w = (Inr self, w') \<longrightarrow>
          (if rebuild_condition fs persistent_dir path_to_data w
           then (\<exists>docs c1 index c2 u' c3.
                   load_data be path_to_data = (Inr docs, c1)
                 \<and> from_documents be docs = (Inr index, c2)
                 \<and> persist be index persistent_dir = (Inr u', c3)
                 \<and> as_query_engine be index 4 = Inr (query_engine self))
                \<and> collaborator_calls (new_events w w')
                    = rebuild_calls model_name request_timeout persistent_dir path_to_data
           else (\<exists>index c1.
                   load_index_from_storage be persistent_dir = (Inr index, c1)
                 \<and> as_query_engine be index 4 = Inr (query_engine self))
                \<and> collaborator_calls (new_events w w')
                    = reload_calls model_name request_timeout persistent_dir)
        \<and> (Enter_needs_reindexing persistent_dir path_to_data \<in> set (new_events w w'))
            = exists_path fs persistent_dir)"
proof (intro conjI allI impI)
  assume "\<not> exists_path fs persistent_dir"
  then show "Enter_needs_reindexing persistent_dir path_to_data
      \<notin> set (new_events w (snd (init fs be persistent_dir path_to_data model_name request_timeout w)))"
    by (rule init_absent_trace)
next
  fix u c0
  assume cf: "configure be model_name request_timeout = (Inr u, c0)"
    and "rebuild_condition fs persistent_dir path_to_data w"
  then show "\<exists>rest. collaborator_calls
                     (new_events w (snd (init fs be persistent_dir path_to_data model_name request_timeout w)))
                   = Call_configure model_name request_timeout # Call_load_data path_to_data # rest
                 \<and> Call_load_index persistent_dir \<notin> set rest"
    unfolding rebuild_condition_def by (rule init_enters_rebuild)
next
  fix u c0
  assume cf: "configure be model_name request_timeout = (Inr u, c0)"
    and "exists_path fs persistent_dir
            \<and> fst (needs_reindexing fs persistent_dir path_to_data w) = Inr False"
  then show "\<exists>rest. collaborator_calls
                     (new_events w (snd (init fs be persistent_dir path_to_data model_name request_timeout w)))
                   = Call_configure model_name request_timeout # Call_load_index persistent_dir # rest
                 \<and> Call_load_data path_to_data \<notin> set rest
                 \<and> Call_from_documents \<notin> set rest
                 \<and> Call_persist persistent_dir \<notin> set rest"
    using init_enters_reload [of be model_name request_timeout u c0 fs persistent_dir path_to_data w]
    by blast
next
  fix u c0 e
  assume cf: "configure be model_name request_timeout = (Inr u, c0)"
    and r: "exists_path fs persistent_dir
            \<and> fst (needs_reindexing fs persistent_dir path_to_data w) = Inl e"
  from r have ex: "exists_path fs persistent_dir"
    and rs: "fst (needs_reindexing fs persistent_dir path_to_data w) = Inl e"
    by simp_all
  from init_check_raises [OF cf ex rs]
  show "fst (init fs be persistent_dir path_to_data model_name request_timeout w) = Inl e"
    and "collaborator_calls
                (new_events w (snd (init fs be persistent_dir path_to_data model_name request_timeout w)))
              = [Call_configure model_name request_timeout]"
    by simp_all
next
  fix u c0 docs c1 index c2 u' c3 qe
  assume cf: "configure be model_name request_timeout = (Inr u, c0)"
    and h: "rebuild_condition fs persistent_dir path_to_data w
            \<and> load_data be path_to_data = (Inr docs, c1)
            \<and> from_documents be docs = (Inr index, c2)
            \<and> persist be index persistent_dir = (Inr u', c3)
            \<and> as_query_engine be index 4 = Inr qe"
  from h have st: "\<not> exists_path fs persistent_dir
        \<or> fst (needs_reindexing fs persistent_dir path_to_data w) = Inr True"
    and ld: "load_data be path_to_data = (Inr docs, c1)"
    and fd: "from_documents be docs = (Inr index, c2)"
    and ps: "persist be index persistent_dir = (Inr u', c3)"
    and aq: "as_query_engine be index 4 = Inr qe"
    by (simp_all add: rebuild_condition_def)
  from init_rebuild_ok [OF cf st ld fd ps aq]
  show "\<exists>self w'. init fs be persistent_dir path_to_data model_name request_timeout w = (Inr self, w')
              \<and> query_engine self = qe
              \<and> load_duration self = of_nat (c1 + c2 + c3) / 1000000000
              \<and> collaborator_calls (new_events w w')
                  = rebuild_calls model_name request_timeout persistent_dir path_to_data"
    by (simp add: rebuild_calls_def)
next
  fix u c0 index c1 qe
  assume cf: "configure be model_name request_timeout = (Inr u, c0)"
    and h: "exists_path fs persistent_dir
            \<and> fst (needs_reindexing fs persistent_dir path_to_data w) = Inr False
            \<and> load_index_from_storage be persistent_dir = (Inr index, c1)
            \<and> as_query_engine be index 4 = Inr qe"
  from h have ex: "exists_path fs persistent_dir"
    and fr: "fst (needs_reindexing fs persistent_dir path_to_data w) = Inr False"
    and li: "load_index_from_storage be persistent_dir = (Inr index, c1)"
    and aq: "as_query_engine be index 4 = Inr qe"
    by simp_all
  from init_reload_ok [OF cf ex fr li aq]
  show "\<exists>self w'. init fs be persistent_dir path_to_data model_name request_timeout w = (Inr self, w')
              \<and> query_engine self = qe
              \<and> load_duration self = of_nat c1 / 1000000000
              \<and> collaborator_calls (new_events w w')
                  = reload_calls model_name request_timeout persistent_dir"
    by (simp add: reload_calls_def)
next
  fix self w'
  assume ok: "init fs be persistent_dir path_to_data model_name request_timeout w = (Inr self, w')"
  from init_success_calls [of fs persistent_dir path_to_data w be model_name request_timeout] ok
  have calls: "if \<not> exists_path fs persistent_dir
                  \<or> fst (needs_reindexing fs persistent_dir path_to_data w) = Inr True
               then collaborator_calls (new_events w w') =
                      [Call_configure model_name request_timeout, Call_load_data path_to_data,
                       Call_from_documents, Call_persist persistent_dir, Call_as_query_engine 4]
               else collaborator_calls (new_events w w') =
                      [Call_configure model_name request_timeout, Call_load_index persistent_dir,
                       Call_as_query_engine 4]"
    and enter: "(Enter_needs_reindexing persistent_dir path_to_data \<in> set (new_events w w'))
                = exists_path fs persistent_dir"
    by blast+
  show "if rebuild_condition fs persistent_dir path_to_data w
           then (\<exists>docs c1 index c2 u' c3.
                   load_data be path_to_data = (Inr docs, c1)
                 \<and> from_documents be docs = (Inr index, c2)
                 \<and> persist be index persistent_dir = (Inr u', c3)
                 \<and> as_query_engine be index 4 = Inr (query_engine self))
                \<and> collaborator_calls (new_events w w')
                    = rebuild_calls model_name request_timeout persistent_dir path_to_data
           else (\<exists>index c1.
                   load_index_from_storage be persistent_dir = (Inr index, c1)
                 \<and> as_query_engine be index 4 = Inr (query_engine self))
                \<and> collaborator_calls (new_events w w')
                    = reload_calls model_name request_timeout persistent_dir"
  proof (cases "rebuild_condition fs persistent_dir path_to_data w")
    case True
    with init_Inr_flow [OF ok] calls show ?thesis
      unfolding rebuild_condition_def rebuild_calls_def by simp
  next
    case False
    with init_Inr_flow [OF ok] calls show ?thesis
      unfolding rebuild_condition_def reload_calls_def by simp
  qed
  from enter show "(Enter_needs_reindexing persistent_dir path_to_data \<in> set (new_events w w'))
            = exists_path fs persistent_dir" .
qed

theorem init_creates_or_loads_witness:
  "\<not> exists_path fs1 ''nocache''
   \<and> rebuild_condition fs1 ''nocache'' ''data'' world0
   \<and> init fs1 be0 ''nocache'' ''data'' ''llama3.1'' 120 world0 = (Inr session2, world5)
   \<and> query_engine session2 = const_engine ''Sauron'' 1250000000
   \<and> collaborator_calls (new_events world0 world5)
       = [Call_configure ''llama3.1'' 120, Call_load_data ''data'', Call_from_documents,
          Call_persist ''nocache'', Call_as_query_engine 4]
   \<and> Enter_needs_reindexing ''nocache'' ''data'' \<notin> set (new_events world0 world5)
   \<and> exists_path fs0 ''cache''
   \<and> rebuild_condition fs0 ''cache'' ''data'' world0
   \<and> init fs0 be0 ''cache'' ''data'' ''llama3.1'' 120 world0 = (Inr session2, world2)
   \<and> collaborator_calls (new_events world0 world2)
       = [Call_configure ''llama3.1'' 120, Call_load_data ''data'', Call_from_documents,
          Call_persist ''cache'', Call_as_query_engine 4]
   \<and> exists_path fs1 ''cache''
   \<and> fst (needs_reindexing fs1 ''cache'' ''data'' world0) = Inr False
   \<and> init fs1 be0 ''cache'' ''data'' ''llama3.1'' 120 world0 = (Inr session3, world4)
   \<and> collaborator_calls (new_events world0 world4)
       = [Call_configure ''llama3.1'' 120, Call_load_index ''cache'', Call_as_query_engine 4]
   \<and> exists_path fs1 ''cachefile''
   \<and> fst (needs_reindexing fs1 ''cachefile'' ''data'' world0) = Inl ValueError
   \<and> fst (init fs1 be0 ''cachefile'' ''data'' ''llama3.1'' 120 world0) = Inl ValueError"
proof -
  have cf: "configure be0 ''llama3.1'' 120 = (Inr (), 5)" by (simp add: be0_def)
  have absent: "\<not> exists_path fs1 ''nocache''"
    by (simp add: exists_path_def fs1_def)
  then have rc1: "rebuild_condition fs1 ''nocache'' ''data'' world0"
    by (simp add: rebuild_condition_def)
  have ex0: "exists_path fs0 ''cache''"
    by (simp add: exists_path_def fs0_def)
  have "fst (needs_reindexing fs0 ''cache'' ''data'' world0) = Inr True"
    by (simp add: needs_reindexing_def os_walk_def fs0_def joinpath_def Let_def)
  then have rc0: "rebuild_condition fs0 ''cache'' ''data'' world0"
    by (simp add: rebuild_condition_def)
  have present: "exists_path fs1 ''cache''"
    by (simp add: exists_path_def fs1_def)
  have fresh: "fst (needs_reindexing fs1 ''cache'' ''data'' world0) = Inr False"
    by (simp add: needs_reindexing_def os_walk_def fs1_def joinpath_def Let_def)
  from fresh have nrc: "\<not> rebuild_condition fs1 ''cache'' ''data'' world0"
    using present by (simp add: rebuild_condition_def)
  have exf: "exists_path fs1 ''cachefile''"
    by (simp add: exists_path_def fs1_def)
  have raises: "fst (needs_reindexing fs1 ''cachefile'' ''data'' world0) = Inl ValueError"
    by (simp add: needs_reindexing_def os_walk_def fs1_def Let_def)
  note a = init_creates_or_loads [of fs1 "''nocache''" "''data''" world0 be0 "''llama3.1''" 120]
  note b = init_creates_or_loads [of fs0 "''cache''" "''data''" world0 be0 "''llama3.1''" 120]
  note c = init_creates_or_loads [of fs1 "''cache''" "''data''" world0 be0 "''llama3.1''" 120]
  note d = init_creates_or_loads [of fs1 "''cachefile''" "''data''" world0 be0 "''llama3.1''" 120]
  from a init_example_absent rc1 have 1: "collaborator_calls (new_events world0 world5)
       = rebuild_calls ''llama3.1'' 120 ''nocache'' ''data''"
    by simp
  from a absent init_example_absent have 2:
    "Enter_needs_reindexing ''nocache'' ''data'' \<notin> set (new_events world0 world5)"
    by simp
  from b init_example rc0 have 3: "collaborator_calls (new_events world0 world2)
       = rebuild_calls ''llama3.1'' 120 ''cache'' ''data''"
    by simp
  from c init_example_fresh nrc have 4: "collaborator_calls (new_events world0 world4)
       = reload_calls ''llama3.1'' 120 ''cache''"
    by simp
  from d cf exf raises have 5:
    "fst (init fs1 be0 ''cachefile'' ''data'' ''llama3.1'' 120 world0) = Inl ValueError"
    by blast
  have q: "query_engine session2 = const_engine ''Sauron'' 1250000000"
    by (simp add: session2_def)
  from absent rc1 init_example_absent q 1 2 ex0 rc0 init_example 3 present fresh
    init_example_fresh 4 exf raises 5
  show ?thesis by (simp add: rebuild_calls_def reload_calls_def)
qed

text \<open>
  C3 (as stated, refuted). With a cache directory in place, the staleness check raises
  nothing when the source directory is missing or cannot be listed: it returns false.
\<close>

theorem staleness_check_missing_source_counterexample:
  "fs1 ''nowhere'' = None
   \<and> fst (needs_reindexing fs1 ''cache'' ''nowhere'' world0) = Inr False
   \<and> fs1 ''locked'' = Some (Locked 200)
   \<and> fst (needs_reindexing fs1 ''cache'' ''locked'' world0) = Inr False"
  by (simp add: needs_reindexing_def os_walk_def fs1_def Let_def)

text \<open>
  C3 (amended). When the source directory does not exist or cannot be listed, and the cache
  directory exists and can be listed, the walk of the source yields nothing and the
  staleness check returns false without an error.
\<close>

theorem staleness_check_unlistable_source:
  fixes fs :: "('t::linorder) fs"
  assumes "fs data_dir = None \<or> (\<exists>m. fs data_dir = Some (Locked m))"
    and "fs persistent_dir = Some (Dir t es)"
  shows "needs_reindexing fs persistent_dir data_dir w
           = (Inr False, emit (Enter_needs_reindexing persistent_dir data_dir) w)"
proof -
  from assms(1) have "os_walk fs data_dir = []"
    by (auto simp: os_walk_def)
  from needs_reindexing_empty_walk [OF this assms(2)] show ?thesis .
qed

theorem staleness_check_unlistable_source_witness:
  "(fs1 ''locked'' = None \<or> (\<exists>m. fs1 ''locked'' = Some (Locked m)))
   \<and> fs1 ''cache'' = Some (Dir 100 [(''docstore.json'', File 90)])
   \<and> needs_reindexing fs1 ''cache'' ''locked'' world0
       = (Inr False, \<lparr>clock = 0, trace = [Enter_needs_reindexing ''cache'' ''locked''], heap = []\<rparr>)"
proof -
  have a: "fs1 ''locked'' = None \<or> (\<exists>m. fs1 ''locked'' = Some (Locked m))"
    by (simp add: fs1_def)
  have b: "fs1 ''cache'' = Some (Dir 100 [(''docstore.json'', File 90)])"
    by (simp add: fs1_def)
  from staleness_check_unlistable_source [of fs1 "''locked''" "''cache''" 100 "[(''docstore.json'', File 90)]" world0, OF a b] a b
  show ?thesis by (simp add: emit_def world0_def)
qed

text \<open>
  C4 (as stated, refuted). \<^verbatim>\<open>query\<close> does not validate its argument: the empty question
  is forwarded to the query engine, whose answer is returned.
\<close>

theorem query_empty_question_counterexample:
  "fst (query session0 '''' world1) = Inr ''Sauron''
   \<and> trace (snd (snd (query session0 '''' world1)))
       = [Log_processing '''', Call_query '''', Log_query_completed (6 / 5)]"
  by (simp add: query_def session0_def world1_def Let_def emit_def tick_def perf_counter_def
      list_append_def deref_def py_round_tie)

text \<open>
  C4 (amended). For every question, the empty one included, \<^verbatim>\<open>query\<close> forwards the question
  to the query engine and, on a live session, returns or raises what the engine returns or
  raises; an \<^verbatim>\<open>InvalidArgument\<close> error comes out of \<^verbatim>\<open>query\<close> only when the engine raised it.
\<close>

theorem query_forwards_every_question:
  "Call_query msg \<in> set (new_events w (snd (snd (query self msg w))))
   \<and> (query_log self w \<noteq> None \<longrightarrow> fst (query self msg w) = fst (respond (query_engine self) msg))
   \<and> (fst (query self msg w) = Inl InvalidArgument
        \<longrightarrow> fst (respond (query_engine self) msg) = Inl InvalidArgument)"
proof -
  obtain r c qe where rs: "respond (query_engine self) msg = (r, c, qe)"
    by (cases "respond (query_engine self) msg")
  show ?thesis
  proof (cases r)
    case (Inl e)
    show ?thesis unfolding query_raise [OF rs [unfolded Inl]] rs Inl
      by (simp add: new_events_def)
  next
    case (Inr a)
    have ev: "Call_query msg \<in> set (new_events w (snd (snd (query self msg w))))"
      by (auto simp: query_def Let_def rs Inr new_events_def emit_def tick_def
          dest!: list_append_Inr split: sum.splits)
    have live: "query_log self w \<noteq> None \<longrightarrow> fst (query self msg w) = fst (respond (query_engine self) msg)"
    proof
      assume "query_log self w \<noteq> None"
      then obtain lg where "query_log self w = Some lg" by blast
      from query_answer [OF this rs [unfolded Inr]] show "fst (query self msg w) = fst (respond (query_engine self) msg)"
        by (simp add: rs Inr)
    qed
    have inv: "fst (query self msg w) \<noteq> Inl InvalidArgument"
      by (auto simp: query_def Let_def rs Inr list_append_def split: sum.splits option.splits pyobj.splits)
    from ev live inv show ?thesis by simp
  qed
qed

theorem query_forwards_every_question_witness:
  "Call_query '''' \<in> set (new_events world1 (snd (snd (query session0 '''' world1))))
   \<and> query_log session0 world1 \<noteq> None
   \<and> fst (query session0 '''' world1) = Inr ''Sauron''"
proof -
  have a: "query_log session0 world1 \<noteq> None"
    by (simp add: query_log_def deref_def session0_def world1_def)
  from query_forwards_every_question [of "''''" world1 session0] a show ?thesis
    by (simp add: session0_def)
qed

text \<open>
  C5. When the query engine answers a question, \<^verbatim>\<open>query\<close> returns that answer unchanged
  and appends exactly one entry to the query-duration log: the elapsed time between the
  two readings of the clock, rounded to one decimal place (a multiple of one tenth, at
  most one twentieth away from the elapsed time).
\<close>

theorem query_returns_answer_and_logs_duration:
  assumes "query_log self w = Some lg"
    and "respond (query_engine self) msg = (Inr answer, c, qe)"
  shows "\<exists>self' w' d.
           query self msg w = (Inr answer, self', w')
         \<and> query_log self' w' = Some (lg @ [d])
         \<and> d = py_round (perf_counter w' - perf_counter w) 1
         \<and> (\<exists>k::int. d = of_int k / 10)
         \<and> \<bar>d - (perf_counter w' - perf_counter w)\<bar> \<le> 1 / 20"
proof -
  define d where "d = py_round (of_nat c / 1000000000) 1"
  define w' where "w' = \<lparr>clock = clock w + c,
       trace = trace w @ [Log_processing msg, Call_query msg, Log_query_completed d],
       heap = (heap w)[query_durations self := PyList (lg @ [d])]\<rparr>"
  have q: "query self msg w = (Inr answer, self\<lparr>query_engine := qe\<rparr>, w')"
    unfolding w'_def d_def by (rule query_answer [OF assms])
  have el: "perf_counter w' - perf_counter w = of_nat c / 1000000000"
    by (simp add: w'_def perf_counter_def add_divide_distrib)
  from assms(1) have "query_durations self < length (heap w)"
    by (auto simp: query_log_deref deref_def split: if_splits)
  then have lg': "query_log (self\<lparr>query_engine := qe\<rparr>) w' = Some (lg @ [d])"
    by (simp add: query_log_deref deref_def w'_def)
  have dec: "\<exists>k::int. d = of_int k / 10"
    unfolding d_def by (rule py_round_1_decimal)
  have cl: "\<bar>d - (perf_counter w' - perf_counter w)\<bar> \<le> 1 / 20"
    unfolding el d_def by (rule py_round_1_close)
  have deq: "d = py_round (perf_counter w' - perf_counter w) 1"
    unfolding el d_def ..
  from q lg' deq dec cl show ?thesis by blast
qed

theorem query_returns_answer_and_logs_duration_witness:
  "query_log session0 world1 = Some [3 / 2]
   \<and> respond (query_engine session0) ''Who owns the one ring?''
       = (Inr ''Sauron'', 1250000000, const_engine ''Sauron'' 1250000000)
   \<and> (\<exists>self' w'. query session0 ''Who owns the one ring?'' world1 = (Inr ''Sauron'', self', w')
        \<and> query_log self' w' = Some [3 / 2, 6 / 5])"
proof -
  have a: "query_log session0 world1 = Some [3 / 2]"
    by (simp add: query_log_def deref_def session0_def world1_def)
  have b: "respond (query_engine session0) ''Who owns the one ring?''
       = (Inr ''Sauron'', 1250000000, const_engine ''Sauron'' 1250000000)"
    by (simp add: session0_def)
  from query_returns_answer_and_logs_duration [OF a b]
  obtain self' w' d where q: "query session0 ''Who owns the one ring?'' world1 = (Inr ''Sauron'', self', w')"
    and l: "query_log self' w' = Some ([3 / 2] @ [d])"
    and d: "d = py_round (perf_counter w' - perf_counter world1) 1"
    by blast
  from q have "w' = snd (snd (query session0 ''Who owns the one ring?'' world1))" by simp
  then have "perf_counter w' - perf_counter world1 = 5 / 4"
    unfolding query_answer [OF a b] by (simp add: perf_counter_def world1_def)
  with d have "d = 6 / 5"
    by (simp add: py_round_tie)
  with a b q l show ?thesis by simp
qed

text \<open>
  C6. On a constructed instance, after any sequence of operations the query-duration log
  holds exactly one entry for each call of \<^verbatim>\<open>query\<close> that returned an answer, in call
  order (the rounded time of that call), each entry non-negative. The log only grows: what
  it held after the first \<open>k\<close> operations is a prefix of what it holds at the end.
\<close>

theorem query_log_grows_by_answered_queries:
  assumes "init fs be persistent_dir path_to_data model_name request_timeout w = (Inr self, w1)"
    and "run calls self w1 = (outs, self', w')"
  shows "\<exists>ds. query_log self' w' = Some ds
       \<and> length ds = length (filter is_answer outs)
       \<and> ds = answered_durations (query_engine self) calls
       \<and> (\<forall>d\<in>set ds. 0 \<le> d)
       \<and> (\<forall>k. \<exists>ds_k. query_log (fst (snd (run (take k calls) self w1)))
                                (snd (snd (run (take k calls) self w1))) = Some ds_k
                     \<and> prefix ds_k ds)"
proof -
  have l0: "query_log self w1 = Some []"
    by (rule init_query_log [OF assms(1)])
  from run_invariant [OF l0 assms(2)]
  have l: "query_log self' w' = Some (answered_durations (query_engine self) calls)"
    and n: "length (filter is_answer outs) = length (answered_durations (query_engine self) calls)"
    by simp_all
  have pos: "\<forall>d\<in>set (answered_durations (query_engine self) calls). 0 \<le> d"
    by (rule answered_durations_nonneg)
  have pre: "\<forall>k. \<exists>ds_k. query_log (fst (snd (run (take k calls) self w1)))
                                (snd (snd (run (take k calls) self w1))) = Some ds_k
                     \<and> prefix ds_k (answered_durations (query_engine self) calls)"
    using run_take_log [OF l0, of _ calls] by simp
  from l n pos pre show ?thesis by simp
qed

theorem query_log_grows_by_answered_queries_witness:
  "init fs0 be0 ''cache'' ''data'' ''llama3.1'' 120 world0 = (Inr session2, world2)
   \<and> run calls2 session2 world2
       = ([Answer ''Sauron'', Snapshot 1, Duration 3, Answer ''Sauron''], session2, world3)
   \<and> query_log session2 world3 = Some [6 / 5, 6 / 5]
   \<and> answered_durations (query_engine session2) calls2 = [6 / 5, 6 / 5]"
proof -
  from query_log_grows_by_answered_queries [OF init_example run_example]
  obtain ds where "query_log session2 world3 = Some ds"
    and "ds = answered_durations (query_engine session2) calls2"
    by blast
  moreover have "query_log session2 world3 = Some [6 / 5, 6 / 5]"
    by (simp add: query_log_def deref_def session2_def world3_def)
  ultimately show ?thesis using init_example run_example by simp
qed

text \<open>
  C7. The load duration is the time the clock advanced while \<^verbatim>\<open>__init__\<close> created or
  loaded the index; no later operation changes it, and every call of
  \<^verbatim>\<open>get_load_duration\<close> returns that value.
\<close>

theorem load_duration_set_once:
  assumes "init fs be persistent_dir path_to_data model_name request_timeout w = (Inr self, w1)"
    and "run calls self w1 = (outs, self', w')"
  shows "(\<exists>u c index ws we.
            configure be model_name request_timeout = (Inr u, c)
          \<and> ws = tick c (emit (Call_configure model_name request_timeout) w)
          \<and> create_or_load fs be persistent_dir path_to_data ws = (Inr index, we)
          \<and> load_duration self = perf_counter we - perf_counter ws)
       \<and> load_duration self' = load_duration self
       \<and> get_load_duration self' = get_load_duration self
       \<and> length outs = length calls
       \<and> (\<forall>i<length calls. calls ! i = Get_load_duration
             \<longrightarrow> outs ! i = Duration (load_duration self))"
proof -
  from init_Inr [OF assms(1)] obtain u c index w2 qe where
    cf: "configure be model_name request_timeout = (Inr u, c)"
    and cl: "create_or_load fs be persistent_dir path_to_data
               (tick c (emit (Call_configure model_name request_timeout) w)) = (Inr index, w2)"
    and s: "self = \<lparr>load_duration = perf_counter w2
                      - perf_counter (tick c (emit (Call_configure model_name request_timeout) w)),
                    query_engine = qe, query_durations = length (heap w2)\<rparr>"
    by blast
  have "load_duration self = perf_counter w2
          - perf_counter (tick c (emit (Call_configure model_name request_timeout) w))"
    by (subst s) simp
  with cf cl have first: "\<exists>u c index ws we.
            configure be model_name request_timeout = (Inr u, c)
          \<and> ws = tick c (emit (Call_configure model_name request_timeout) w)
          \<and> create_or_load fs be persistent_dir path_to_data ws = (Inr index, we)
          \<and> load_duration self = perf_counter we - perf_counter ws"
    by blast
  from run_get_load_duration [OF assms(2)] first show ?thesis
    by (simp add: get_load_duration_def)
qed

theorem load_duration_set_once_witness:
  "init fs0 be0 ''cache'' ''data'' ''llama3.1'' 120 world0 = (Inr session2, world2)
   \<and> run calls2 session2 world2
       = ([Answer ''Sauron'', Snapshot 1, Duration 3, Answer ''Sauron''], session2, world3)
   \<and> get_load_duration session2 = 3
   \<and> calls2 ! 2 = Get_load_duration
   \<and> [Answer ''Sauron'', Snapshot 1, Duration 3, Answer ''Sauron''] ! 2 = Duration (load_duration session2)"
proof -
  from load_duration_set_once [OF init_example run_example]
  have "\<forall>i<length calls2. calls2 ! i = Get_load_duration
          \<longrightarrow> [Answer ''Sauron'', Snapshot 1, Duration 3, Answer ''Sauron''] ! i
              = Duration (load_duration session2)"
    by blast
  moreover have "calls2 ! 2 = Get_load_duration" "2 < length calls2"
    by (simp_all add: calls2_def)
  ultimately have "[Answer ''Sauron'', Snapshot 1, Duration 3, Answer ''Sauron''] ! 2
      = Duration (load_duration session2)"
    by blast
  with init_example run_example \<open>calls2 ! 2 = Get_load_duration\<close> show ?thesis
    by (simp add: get_load_duration_def session2_def)
qed

text \<open>
  C8. \<^verbatim>\<open>get_query_durations\<close> returns a new tuple object that holds the log's entries in
  order as they are at the call. It is not the list object of the instance, no later
  operation changes it, and it cannot be appended to.
\<close>

theorem get_query_durations_is_immutable_snapshot:
  assumes "query_log self w = Some lg"
    and "get_query_durations self w = (r, w1)"
  shows "\<exists>t. r = Inr t
       \<and> deref w1 t = Some (PyTuple lg)
       \<and> deref w t = None
       \<and> t \<noteq> query_durations self
       \<and> query_log self w1 = Some lg
       \<and> (\<forall>calls. deref (snd (snd (run calls self w1))) t = Some (PyTuple lg))
       \<and> (\<forall>v w2. deref w2 t = Some (PyTuple lg) \<longrightarrow> list_append t v w2 = Inl AttributeError)"
proof -
  define t where "t = length (heap w)"
  from assms(2) have r: "r = Inr t" and w1: "w1 = w\<lparr>heap := heap w @ [PyTuple lg]\<rparr>"
    unfolding get_query_durations_snapshot [OF assms(1)] t_def by simp_all
  from assms(1) have lt: "query_durations self < length (heap w)"
    by (auto simp: query_log_deref deref_def split: if_splits)
  have d1: "deref w1 t = Some (PyTuple lg)"
    by (simp add: deref_def w1 t_def)
  have d0: "deref w t = None"
    by (simp add: deref_def t_def)
  from lt have ne: "t \<noteq> query_durations self"
    by (simp add: t_def)
  from assms(1) lt have l1: "query_log self w1 = Some lg"
    by (simp add: query_log_deref deref_def w1 nth_append)
  have later: "\<forall>calls. deref (snd (snd (run calls self w1))) t = Some (PyTuple lg)"
    using run_keeps_tuple [OF d1] by blast
  have imm: "\<forall>v w2. deref w2 t = Some (PyTuple lg) \<longrightarrow> list_append t v w2 = Inl AttributeError"
    by (simp add: list_append_def)
  from r d1 d0 ne l1 later imm show ?thesis by blast
qed

theorem get_query_durations_is_immutable_snapshot_witness:
  "query_log session0 world1 = Some [3 / 2]
   \<and> get_query_durations session0 world1 = (Inr 1, world1\<lparr>heap := [PyList [3 / 2], PyTuple [3 / 2]]\<rparr>)
   \<and> deref (snd (snd (run [Query ''Who owns the one ring?''] session0
              (world1\<lparr>heap := [PyList [3 / 2], PyTuple [3 / 2]]\<rparr>)))) 1 = Some (PyTuple [3 / 2])
   \<and> query_log session0 (snd (snd (run [Query ''Who owns the one ring?''] session0
              (world1\<lparr>heap := [PyList [3 / 2], PyTuple [3 / 2]]\<rparr>)))) = Some [3 / 2, 6 / 5]"
proof -
  have a: "query_log session0 world1 = Some [3 / 2]"
    by (simp add: query_log_def deref_def session0_def world1_def)
  have b: "get_query_durations session0 world1
      = (Inr 1, world1\<lparr>heap := [PyList [3 / 2], PyTuple [3 / 2]]\<rparr>)"
    by (simp add: get_query_durations_def tuple_of_def deref_def alloc_def session0_def world1_def)
  from get_query_durations_is_immutable_snapshot [OF a b]
  have c: "deref (snd (snd (run [Query ''Who owns the one ring?''] session0
              (world1\<lparr>heap := [PyList [3 / 2], PyTuple [3 / 2]]\<rparr>)))) 1 = Some (PyTuple [3 / 2])"
    by blast
  have d: "query_log session0 (snd (snd (run [Query ''Who owns the one ring?''] session0
              (world1\<lparr>heap := [PyList [3 / 2], PyTuple [3 / 2]]\<rparr>)))) = Some [3 / 2, 6 / 5]"
    by (simp add: session0_def world1_def query_def Let_def emit_def tick_def query_log_def
      perf_counter_def list_append_def deref_def py_round_tie add_divide_distrib)
  from a b c d show ?thesis by blast
qed

text \<open>
  C9. When the query engine raises, \<^verbatim>\<open>query\<close> raises the same error and the
  query-duration log is unchanged: no entry is appended for a failed query.
\<close>

theorem query_engine_error_propagates:
  assumes "respond (query_engine self) msg = (Inl e, c, qe)"
  shows "\<exists>self' w'. query self msg w = (Inl e, self', w')
           \<and> heap w' = heap w
           \<and> query_durations self' = query_durations self
           \<and> query_log self' w' = query_log self w"
  unfolding query_raise [OF assms]
  by (simp add: query_log_def deref_def)

theorem query_engine_error_propagates_witness:
  "respond (query_engine session1) ''Who?'' = (Inl BackendError, 7, failing_engine BackendError 7)
   \<and> fst (query session1 ''Who?'' world1) = Inl BackendError
   \<and> query_log (fst (snd (query session1 ''Who?'' world1))) (snd (snd (query session1 ''Who?'' world1)))
       = Some [3 / 2]"
proof -
  have a: "respond (query_engine session1) ''Who?'' = (Inl BackendError, 7, failing_engine BackendError 7)"
    by (simp add: session1_def)
  have b: "query_log session1 world1 = Some [3 / 2]"
    by (simp add: query_log_def deref_def session1_def world1_def)
  from query_engine_error_propagates [OF a, of world1] a b show ?thesis by auto
qed

text \<open>
  C10. When the cache path exists but is a regular file, \<^verbatim>\<open>__init__\<close> (once the backends
  are configured) invokes the staleness check; the walk of the cache path yields no
  directory, \<^verbatim>\<open>max\<close> of the empty sequence raises \<^verbatim>\<open>ValueError\<close>, and that error, which is
  none of the documented kinds, leaves the constructor before any index is created or
  loaded.
\<close>

theorem init_cache_regular_file_raises_ValueError:
  fixes fs :: "('t::linorder) fs"
  assumes "fs persistent_dir = Some (File t)"
    and "configure be model_name request_timeout = (Inr u, c)"
  shows "exists_path fs persistent_dir
       \<and> os_walk fs persistent_dir = []
       \<and> init fs be persistent_dir path_to_data model_name request_timeout w
           = (Inl ValueError,
              emit (Enter_needs_reindexing persistent_dir path_to_data)
                (tick c (emit (Call_configure model_name request_timeout) w)))
       \<and> ValueError \<notin> documented_error_kinds"
  using assms
  by (simp add: exists_path_def os_walk_def init_def create_or_load_def needs_reindexing_def
      Let_def documented_error_kinds_def)

theorem init_cache_regular_file_raises_ValueError_witness:
  "fs1 ''cachefile'' = Some (File 7)
   \<and> configure be0 ''llama3.1'' 120 = (Inr (), 5)
   \<and> init fs1 be0 ''cachefile'' ''data'' ''llama3.1'' 120 world0
       = (Inl ValueError,
          \<lparr>clock = 5,
           trace = [Call_configure ''llama3.1'' 120, Enter_needs_reindexing ''cachefile'' ''data''],
           heap = []\<rparr>)"
proof -
  have a: "fs1 ''cachefile'' = Some (File 7)" by (simp add: fs1_def)
  have b: "configure be0 ''llama3.1'' 120 = (Inr (), 5)" by (simp add: be0_def)
  from init_cache_regular_file_raises_ValueError [of fs1 "''cachefile''" 7 be0 "''llama3.1''" 120 "()" 5 "''data''" world0, OF a b] a b
  show ?thesis by (simp add: emit_def tick_def world0_def)
qed

end
